theory Spec2Isabelle
  imports Main "HOL-Library.Word"
begin

section \<open>The infrared remote-control subsystem of GoEV3 (Sensors package)\<close>

text \<open>
  The Go source declares \<^verbatim>\<open>type Button uint64\<close> and \<^verbatim>\<open>type Channel uint64\<close>, so both
  are 64-bit words here and the arithmetic of \<^verbatim>\<open>buttonID\<close> wraps as it does in Go.
\<close>

type_synonym Button = "64 word"
type_synonym Channel = "64 word"

definition RedUp :: Button where "RedUp = 1"
definition RedDown :: Button where "RedDown = 2"
definition BlueUp :: Button where "BlueUp = 3"
definition BlueDown :: Button where "BlueDown = 4"

definition Channel1 :: Channel where "Channel1 = 0"
definition Channel2 :: Channel where "Channel2 = 1"
definition Channel3 :: Channel where "Channel3 = 2"
definition Channel4 :: Channel where "Channel4 = 3"

record RemoteSignal =
  Name :: string
  Value :: "64 word"

text \<open>
  Every \<^verbatim>\<open>log.Fatal\<close> of the source ends the process (it calls \<^verbatim>\<open>os.Exit(1)\<close>). Each call
  site is one constructor: the three I/O failures and the parse failure of \<^verbatim>\<open>pollRemote\<close>,
  and the default branch of \<^verbatim>\<open>parseChannel\<close>.
\<close>

datatype NumError = ErrSyntax | ErrRange

datatype fatal =
    FatalOpen
  | FatalRead
  | FatalSeek
  | FatalParse NumError
  | FatalInvalidChannel

text \<open>A callback invocation \<^verbatim>\<open>fn(c, b)\<close> is recorded as the pair of its arguments.\<close>

type_synonym event = "Channel \<times> Button"

text \<open>The Go map \<^verbatim>\<open>map[uint64]bool\<close>; the test \<^verbatim>\<open>v, ok := pressed[k]; ok && v\<close> is
  \<open>pressed k = Some True\<close>.\<close>

type_synonym PressedState = "64 word \<rightharpoonup> bool"

subsection \<open>parseChannel and buttonID\<close>

definition parseChannel :: "string \<Rightarrow> fatal + Channel" where
  "parseChannel name =
     (if name = ''value0'' then Inr Channel1
      else if name = ''value1'' then Inr Channel2
      else if name = ''value2'' then Inr Channel3
      else if name = ''value3'' then Inr Channel4
      else Inl FatalInvalidChannel)"

definition buttonID :: "Channel \<Rightarrow> Button \<Rightarrow> 64 word" where
  "buttonID c b = c * 10 + b"

text \<open>The loop \<^verbatim>\<open>for b := RedUp; b <= BlueDown; b++\<close> visits these four codes in this order.\<close>

definition buttons :: "Button list" where
  "buttons = [RedUp, RedDown, BlueUp, BlueDown]"

definition channels :: "Channel list" where
  "channels = [Channel1, Channel2, Channel3, Channel4]"

subsection \<open>The Debounce Engine of OnRemotePressed\<close>

text \<open>Lines 221 to 223: \<^verbatim>\<open>pressed[buttonID(c, b)] = false\<close> for each of the four buttons.\<close>

fun clear_buttons :: "Channel \<Rightarrow> Button list \<Rightarrow> PressedState \<Rightarrow> PressedState" where
  "clear_buttons c [] pressed = pressed"
| "clear_buttons c (b # bs) pressed = clear_buttons c bs (pressed(buttonID c b \<mapsto> False))"

text \<open>
  One pass through the \<^verbatim>\<open>case signal := <-s\<close> arm of the select (lines 217 to 231): the
  result is the fatal error of \<^verbatim>\<open>parseChannel\<close>, or the new map with the callbacks invoked.
\<close>

definition OnRemotePressed_signal ::
    "PressedState \<Rightarrow> RemoteSignal \<Rightarrow> fatal + (PressedState \<times> event list)" where
  "OnRemotePressed_signal pressed signal =
     (case parseChannel (Name signal) of
        Inl e \<Rightarrow> Inl e
      | Inr c \<Rightarrow>
          if Value signal = 0 then Inr (clear_buttons c buttons pressed, [])
          else
            let k = buttonID c (Value signal) in
            if pressed k = Some True then Inr (pressed, [])
            else Inr (pressed(k \<mapsto> True), [(c, Value signal)]))"

text \<open>
  The engine's loop over the samples it receives, in arrival order. The first component
  is every callback invoked so far (they stay delivered when a fatal error ends the
  process); the second is the fatal error or the map after the last sample.
\<close>

fun OnRemotePressed_samples ::
    "PressedState \<Rightarrow> RemoteSignal list \<Rightarrow> event list \<times> (fatal + PressedState)" where
  "OnRemotePressed_samples pressed [] = ([], Inr pressed)"
| "OnRemotePressed_samples pressed (signal # q) =
     (case OnRemotePressed_signal pressed signal of
        Inl e \<Rightarrow> ([], Inl e)
      | Inr (pressed', evs) \<Rightarrow>
          (case OnRemotePressed_samples pressed' q of (evs', r) \<Rightarrow> (evs @ evs', r)))"

subsection \<open>The Debounce Engine of OnRemoteReleased\<close>

text \<open>
  Lines 257 to 262: for each of the four buttons, in order, a button marked pressed has
  its callback invoked and its mark cleared.
\<close>

fun release_buttons ::
    "Channel \<Rightarrow> Button list \<Rightarrow> PressedState \<Rightarrow> PressedState \<times> event list" where
  "release_buttons c [] pressed = (pressed, [])"
| "release_buttons c (b # bs) pressed =
     (if pressed (buttonID c b) = Some True
      then (case release_buttons c bs (pressed(buttonID c b \<mapsto> False)) of
              (pressed', evs) \<Rightarrow> (pressed', (c, b) # evs))
      else release_buttons c bs pressed)"

definition OnRemoteReleased_signal ::
    "PressedState \<Rightarrow> RemoteSignal \<Rightarrow> fatal + (PressedState \<times> event list)" where
  "OnRemoteReleased_signal pressed signal =
     (case parseChannel (Name signal) of
        Inl e \<Rightarrow> Inl e
      | Inr c \<Rightarrow>
          if Value signal \<noteq> 0
          then Inr (pressed(buttonID c (Value signal) \<mapsto> True), [])
          else Inr (release_buttons c buttons pressed))"

fun OnRemoteReleased_samples ::
    "PressedState \<Rightarrow> RemoteSignal list \<Rightarrow> event list \<times> (fatal + PressedState)" where
  "OnRemoteReleased_samples pressed [] = ([], Inr pressed)"
| "OnRemoteReleased_samples pressed (signal # q) =
     (case OnRemoteReleased_signal pressed signal of
        Inl e \<Rightarrow> ([], Inl e)
      | Inr (pressed', evs) \<Rightarrow>
          (case OnRemoteReleased_samples pressed' q of (evs', r) \<Rightarrow> (evs @ evs', r)))"

subsection \<open>The Channel Sampler of pollRemote\<close>

text \<open>
  \<^verbatim>\<open>strings.Trim(s, cutset)\<close> of the Go library removes, from both ends of \<open>s\<close>, every
  character that is in \<open>cutset\<close>. The source calls it with the cutset of the space and
  the line feed.
\<close>

definition Trim :: "string \<Rightarrow> string \<Rightarrow> string" where
  "Trim s cutset =
     rev (dropWhile (\<lambda>ch. ch \<in> set cutset) (rev (dropWhile (\<lambda>ch. ch \<in> set cutset) s)))"

definition space_newline :: string where
  "space_newline = [CHR '' '', CHR 0x0A]"

text \<open>
  \<^verbatim>\<open>strconv.ParseUint(s, 10, 16)\<close> of the Go library: the empty string is a syntax error;
  the digits are read from the left; a character that is not a decimal digit is a syntax
  error, and a value above \<open>2^16 - 1\<close> is a range error, each reported where the scan meets
  it. The accumulator never exceeds 65535 before a digit is added, so it cannot overflow
  the 64 bits Go computes in and a natural number holds it exactly.
\<close>

fun ParseUint_digits :: "nat \<Rightarrow> string \<Rightarrow> NumError + nat" where
  "ParseUint_digits n [] = Inr n"
| "ParseUint_digits n (ch # s) =
     (let d = (of_char ch :: nat) in
      if d < 48 \<or> 57 < d then Inl ErrSyntax
      else
        let n1 = n * 10 + (d - 48) in
        if n1 > 65535 then Inl ErrRange else ParseUint_digits n1 s)"

definition ParseUint_10_16 :: "string \<Rightarrow> NumError + 64 word" where
  "ParseUint_10_16 s =
     (if s = [] then Inl ErrSyntax
      else case ParseUint_digits 0 s of
             Inl e \<Rightarrow> Inl e
           | Inr n \<Rightarrow> Inr (of_nat n))"

text \<open>
  For comparison with \<open>ParseUint_10_16\<close>, the claim's own words: a string denotes an
  unsigned integer when it is a non-empty string of decimal digits, and \<open>decimal_value\<close>
  is the number it denotes.
\<close>

definition is_decimal :: "string \<Rightarrow> bool" where
  "is_decimal str = (str \<noteq> [] \<and> list_all (\<lambda>ch. 48 \<le> (of_char ch :: nat) \<and> (of_char ch :: nat) \<le> 57) str)"

definition decimal_value :: "string \<Rightarrow> nat" where
  "decimal_value str = foldl (\<lambda>n ch. n * 10 + ((of_char ch :: nat) - 48)) 0 str"

text \<open>
  One pass of the sampler's loop after its select (lines 308 to 320). What the file
  system answers is an input: \<open>data\<close> is \<open>None\<close> when \<^verbatim>\<open>ioutil.ReadAll\<close> fails and the
  bytes read otherwise, \<open>seek_ok\<close> tells whether \<^verbatim>\<open>f.Seek(0, 0)\<close> succeeds. The result is
  the fatal error, or the one sample the pass sends.
\<close>

definition pollRemote_tick :: "string \<Rightarrow> string option \<Rightarrow> bool \<Rightarrow> fatal + RemoteSignal" where
  "pollRemote_tick name data seek_ok =
     (case data of
        None \<Rightarrow> Inl FatalRead
      | Some bytes \<Rightarrow>
          if \<not> seek_ok then Inl FatalSeek
          else
            (case ParseUint_10_16 (Trim bytes space_newline) of
               Inl e \<Rightarrow> Inl (FatalParse e)
             | Inr b \<Rightarrow> Inr \<lparr>Name = name, Value = b\<rparr>))"

text \<open>The four names \<^verbatim>\<open>fmt.Sprintf("value%d", i)\<close> for \<open>i = 0, 1, 2, 3\<close>.\<close>

definition sampler_names :: "string list" where
  "sampler_names = [''value0'', ''value1'', ''value2'', ''value3'']"

subsection \<open>One registration: five goroutines, two channels\<close>

text \<open>
  A call of \<^verbatim>\<open>OnRemotePressed\<close> or \<^verbatim>\<open>OnRemoteReleased\<close> starts the engine goroutine and,
  through \<^verbatim>\<open>pollRemote\<close>, four sampler goroutines. They share the buffered channel
  \<^verbatim>\<open>s := make(chan RemoteSignal, 50)\<close> and the caller's channel \<^verbatim>\<open>stop\<close>; the map
  \<^verbatim>\<open>pressed\<close> is a local variable of the engine's closure.

  The state of one registration:
  \<^item> \<open>stop\<close>: the values the caller is sending on \<^verbatim>\<open>stop\<close> that no goroutine has received yet;
  \<^item> \<open>s\<close>: the content of the buffered channel, oldest first;
  \<^item> \<open>engine\<close>: whether the engine goroutine is in its loop or has returned;
  \<^item> \<open>pressed\<close>: the engine's map;
  \<^item> \<open>samplers\<close>: where each of the four sampler goroutines stands;
  \<^item> \<open>fired\<close>, \<open>enqueued\<close>, \<open>dequeued\<close>: histories, for stating properties: the callbacks
    invoked, the samples sent on \<open>s\<close> and the samples received from \<open>s\<close>, oldest first.
\<close>

datatype mode = PressedMode | ReleasedMode

datatype goroutine = InLoop | Returned

datatype sampler =
    Opening
  | AtSelect
  | Sending RemoteSignal
  | Stopped

record session =
  stop :: "bool list"
  s :: "RemoteSignal list"
  engine :: goroutine
  pressed :: PressedState
  samplers :: "sampler list"
  fired :: "event list"
  enqueued :: "RemoteSignal list"
  dequeued :: "RemoteSignal list"

definition s_capacity :: nat where
  "s_capacity = 50"

definition new_session :: session where
  "new_session =
     \<lparr>stop = [], s = [], engine = InLoop, pressed = Map.empty,
      samplers = [Opening, Opening, Opening, Opening],
      fired = [], enqueued = [], dequeued = []\<rparr>"

text \<open>
  What can happen next. The scheduler's choice and the answers of the file system are in
  the action, so that one step is a function:
  \<^item> \<open>CallerSends v\<close>: the application starts sending \<open>v\<close> on \<^verbatim>\<open>stop\<close>;
  \<^item> \<open>EngineStop\<close>: the engine's select takes \<^verbatim>\<open>case <-stop\<close> and returns;
  \<^item> \<open>EngineRecv\<close>: the engine's select takes \<^verbatim>\<open>case signal := <-s\<close> and runs its body;
  \<^item> \<open>SamplerOpen i ok\<close>: sampler \<open>i\<close> runs \<^verbatim>\<open>os.Open\<close>, which succeeds or not;
  \<^item> \<open>SamplerStop i\<close>: the select of sampler \<open>i\<close> takes \<^verbatim>\<open>case <-stop\<close> and returns;
  \<^item> \<open>SamplerPoll i data seek_ok\<close>: the select of sampler \<open>i\<close> takes \<^verbatim>\<open>default\<close>, and the
    sampler reads, seeks and parses;
  \<^item> \<open>SamplerSend i\<close>: sampler \<open>i\<close> completes \<^verbatim>\<open>s <- RemoteSignal{name, b}\<close>.
  Go's select takes a case that can proceed, any of them when several can, and
  \<^verbatim>\<open>default\<close> only when none can; a send on a buffered channel proceeds only while the
  buffer has room. \<^verbatim>\<open>time.Sleep\<close> changes no state and is not a step.
\<close>

datatype action =
    CallerSends bool
  | EngineStop
  | EngineRecv
  | SamplerOpen nat bool
  | SamplerStop nat
  | SamplerPoll nat "string option" bool
  | SamplerSend nat

definition engine_signal ::
    "mode \<Rightarrow> PressedState \<Rightarrow> RemoteSignal \<Rightarrow> fatal + (PressedState \<times> event list)" where
  "engine_signal m p signal =
     (case m of
        PressedMode \<Rightarrow> OnRemotePressed_signal p signal
      | ReleasedMode \<Rightarrow> OnRemoteReleased_signal p signal)"

definition engine_samples ::
    "mode \<Rightarrow> PressedState \<Rightarrow> RemoteSignal list \<Rightarrow> event list \<times> (fatal + PressedState)" where
  "engine_samples m p q =
     (case m of
        PressedMode \<Rightarrow> OnRemotePressed_samples p q
      | ReleasedMode \<Rightarrow> OnRemoteReleased_samples p q)"

text \<open>
  \<open>None\<close>: the action cannot proceed in this state (the goroutine is elsewhere, or it
  blocks). \<open>Some (Inl e)\<close>: \<^verbatim>\<open>log.Fatal\<close> ends the process. \<open>Some (Inr st')\<close>: the next state.
\<close>

fun session_step :: "mode \<Rightarrow> action \<Rightarrow> session \<Rightarrow> (fatal + session) option" where
  "session_step m (CallerSends v) st = Some (Inr (st\<lparr>stop := stop st @ [v]\<rparr>))"
| "session_step m EngineStop st =
     (if engine st = InLoop \<and> stop st \<noteq> []
      then Some (Inr (st\<lparr>stop := tl (stop st), engine := Returned\<rparr>))
      else None)"
| "session_step m EngineRecv st =
     (if engine st = InLoop then
        (case s st of
           [] \<Rightarrow> None
         | signal # q \<Rightarrow>
             (case engine_signal m (pressed st) signal of
                Inl e \<Rightarrow> Some (Inl e)
              | Inr (p', evs) \<Rightarrow>
                  Some (Inr (st\<lparr>s := q, pressed := p', fired := fired st @ evs,
                                dequeued := dequeued st @ [signal]\<rparr>))))
      else None)"
| "session_step m (SamplerOpen i ok) st =
     (if i < 4 \<and> samplers st ! i = Opening
      then (if ok then Some (Inr (st\<lparr>samplers := (samplers st)[i := AtSelect]\<rparr>))
            else Some (Inl FatalOpen))
      else None)"
| "session_step m (SamplerStop i) st =
     (if i < 4 \<and> samplers st ! i = AtSelect \<and> stop st \<noteq> []
      then Some (Inr (st\<lparr>stop := tl (stop st), samplers := (samplers st)[i := Stopped]\<rparr>))
      else None)"
| "session_step m (SamplerPoll i data seek_ok) st =
     (if i < 4 \<and> samplers st ! i = AtSelect \<and> stop st = []
      then (case pollRemote_tick (sampler_names ! i) data seek_ok of
              Inl e \<Rightarrow> Some (Inl e)
            | Inr signal \<Rightarrow> Some (Inr (st\<lparr>samplers := (samplers st)[i := Sending signal]\<rparr>)))
      else None)"
| "session_step m (SamplerSend i) st =
     (if i < 4 then
        (case samplers st ! i of
           Sending signal \<Rightarrow>
             if length (s st) < s_capacity
             then Some (Inr (st\<lparr>s := s st @ [signal], samplers := (samplers st)[i := AtSelect],
                               enqueued := enqueued st @ [signal]\<rparr>))
             else None
         | _ \<Rightarrow> None)
      else None)"

text \<open>
  A run: the actions taken in order. It is \<open>None\<close> when an action cannot proceed where
  the run wants it, and it ends with \<open>Inl e\<close> when its last action is fatal; nothing
  follows a fatal error.
\<close>

fun session_run :: "mode \<Rightarrow> action list \<Rightarrow> session \<Rightarrow> (fatal + session) option" where
  "session_run m [] st = Some (Inr st)"
| "session_run m (a # as) st =
     (case session_step m a st of
        None \<Rightarrow> None
      | Some (Inl e) \<Rightarrow> (if as = [] then Some (Inl e) else None)
      | Some (Inr st') \<Rightarrow> session_run m as st')"

subsection \<open>Two registrations in one process\<close>

text \<open>
  Each call makes its own \<open>s\<close> and its own \<open>pressed\<close>; the model gives each registration
  its own \<^verbatim>\<open>stop\<close> channel as well. An action of the process is an action of the first
  (\<open>Inl\<close>) or of the second (\<open>Inr\<close>) registration; a fatal error of either ends both.
\<close>

fun process_step ::
    "mode \<times> mode \<Rightarrow> action + action \<Rightarrow> session \<times> session \<Rightarrow> (fatal + session \<times> session) option" where
  "process_step (m1, m2) (Inl a) (st1, st2) =
     (case session_step m1 a st1 of
        None \<Rightarrow> None
      | Some (Inl e) \<Rightarrow> Some (Inl e)
      | Some (Inr st1') \<Rightarrow> Some (Inr (st1', st2)))"
| "process_step (m1, m2) (Inr a) (st1, st2) =
     (case session_step m2 a st2 of
        None \<Rightarrow> None
      | Some (Inl e) \<Rightarrow> Some (Inl e)
      | Some (Inr st2') \<Rightarrow> Some (Inr (st1, st2')))"

fun process_run ::
    "mode \<times> mode \<Rightarrow> (action + action) list \<Rightarrow> session \<times> session \<Rightarrow> (fatal + session \<times> session) option" where
  "process_run ms [] sts = Some (Inr sts)"
| "process_run ms (a # as) sts =
     (case process_step ms a sts of
        None \<Rightarrow> None
      | Some (Inl e) \<Rightarrow> (if as = [] then Some (Inl e) else None)
      | Some (Inr sts') \<Rightarrow> process_run ms as sts')"

text \<open>The actions of one registration within the actions of the process, in order.\<close>

fun first_actions :: "(action + action) list \<Rightarrow> action list" where
  "first_actions [] = []"
| "first_actions (Inl a # as) = a # first_actions as"
| "first_actions (Inr a # as) = first_actions as"

fun second_actions :: "(action + action) list \<Rightarrow> action list" where
  "second_actions [] = []"
| "second_actions (Inl a # as) = second_actions as"
| "second_actions (Inr a # as) = a # second_actions as"

section \<open>Properties\<close>

subsection \<open>Channels, buttons and keys\<close>

lemma parseChannel_channels: "parseChannel n = Inr c \<Longrightarrow> c \<in> set channels"
  by (auto simp: parseChannel_def channels_def split: if_splits)

lemma unat_channel: "c \<in> set channels \<Longrightarrow> unat c < 4"
  by (auto simp: channels_def Channel1_def Channel2_def Channel3_def Channel4_def)

lemma unat_button: "b \<in> set buttons \<Longrightarrow> 1 \<le> unat b \<and> unat b \<le> 4"
  by (auto simp: buttons_def RedUp_def RedDown_def BlueUp_def BlueDown_def)

lemma unat_buttonID:
  assumes "unat c < 4" and "unat b \<le> 4"
  shows "unat (buttonID c b) = 10 * unat c + unat b"
proof -
  have "unat (c * 10) = unat c * 10"
    using assms(1) by (simp add: unat_word_ariths)
  then show ?thesis
    using assms by (simp add: buttonID_def unat_word_ariths)
qed

lemma buttonID_eq_iff:
  assumes "c \<in> set channels" "c' \<in> set channels" "b \<in> set buttons" "b' \<in> set buttons"
  shows "(buttonID c b = buttonID c' b') = (c = c' \<and> b = b')"
proof
  assume eq: "buttonID c b = buttonID c' b'"
  have cb: "unat c < 4" "unat c' < 4" "1 \<le> unat b \<and> unat b \<le> 4" "1 \<le> unat b' \<and> unat b' \<le> 4"
    using assms unat_channel unat_button by blast+
  have eq': "10 * unat c + unat b = 10 * unat c' + unat b'"
    using eq cb unat_buttonID [of c b] unat_buttonID [of c' b'] by simp
  have "(10 * unat c + unat b) mod 10 = (10 * unat c' + unat b') mod 10"
    by (simp only: eq')
  then have bb: "unat b = unat b'" using cb by simp
  with eq' have "unat c = unat c'" by simp
  with bb show "c = c' \<and> b = b'" by (simp add: word_unat_eq_iff)
next
  assume "c = c' \<and> b = b'" then show "buttonID c b = buttonID c' b'" by simp
qed

lemma buttonID_same_channel: "(buttonID c b = buttonID c b') = (b = b')"
  by (simp add: buttonID_def)

lemma clear_buttons_apply:
  "clear_buttons c bs p k = (if k \<in> buttonID c ` set bs then Some False else p k)"
  by (induction bs arbitrary: p) auto

subsection \<open>Unfolding the engines' loops\<close>

lemma pressed_samples_Inl:
  "OnRemotePressed_signal p x = Inl e \<Longrightarrow> OnRemotePressed_samples p (x # q) = ([], Inl e)"
  by simp

lemma pressed_samples_Inr:
  "OnRemotePressed_signal p x = Inr (p1, evs) \<Longrightarrow>
   OnRemotePressed_samples p (x # q) =
     (evs @ fst (OnRemotePressed_samples p1 q), snd (OnRemotePressed_samples p1 q))"
  by (simp add: case_prod_unfold)

lemma released_samples_Inl:
  "OnRemoteReleased_signal p x = Inl e \<Longrightarrow> OnRemoteReleased_samples p (x # q) = ([], Inl e)"
  by simp

lemma released_samples_Inr:
  "OnRemoteReleased_signal p x = Inr (p1, evs) \<Longrightarrow>
   OnRemoteReleased_samples p (x # q) =
     (evs @ fst (OnRemoteReleased_samples p1 q), snd (OnRemoteReleased_samples p1 q))"
  by (simp add: case_prod_unfold)

declare OnRemotePressed_samples.simps(2) [simp del]
declare OnRemoteReleased_samples.simps(2) [simp del]

lemma pressed_samples_append:
  "snd (OnRemotePressed_samples p xs) = Inr p1 \<Longrightarrow>
   OnRemotePressed_samples p (xs @ ys) =
     (fst (OnRemotePressed_samples p xs) @ fst (OnRemotePressed_samples p1 ys),
      snd (OnRemotePressed_samples p1 ys))"
proof (induction xs arbitrary: p)
  case Nil
  then have "p = p1" by simp
  then show ?case by simp
next
  case (Cons x xs)
  show ?case
  proof (cases "OnRemotePressed_signal p x")
    case (Inl e)
    have "OnRemotePressed_samples p (x # xs) = ([], Inl e)"
      by (rule pressed_samples_Inl [OF Inl])
    then show ?thesis using Cons.prems by simp
  next
    case (Inr r)
    obtain p2 evs where r: "OnRemotePressed_signal p x = Inr (p2, evs)"
      using Inr by (cases r) simp
    note u1 = pressed_samples_Inr [OF r, of xs]
    note u2 = pressed_samples_Inr [OF r, of "xs @ ys"]
    have "snd (OnRemotePressed_samples p2 xs) = Inr p1"
      using Cons.prems unfolding u1 by simp
    from Cons.IH [OF this] show ?thesis
      unfolding append_Cons u1 u2 by simp
  qed
qed

lemma released_samples_append:
  "snd (OnRemoteReleased_samples p xs) = Inr p1 \<Longrightarrow>
   OnRemoteReleased_samples p (xs @ ys) =
     (fst (OnRemoteReleased_samples p xs) @ fst (OnRemoteReleased_samples p1 ys),
      snd (OnRemoteReleased_samples p1 ys))"
proof (induction xs arbitrary: p)
  case Nil
  then have "p = p1" by simp
  then show ?case by simp
next
  case (Cons x xs)
  show ?case
  proof (cases "OnRemoteReleased_signal p x")
    case (Inl e)
    have "OnRemoteReleased_samples p (x # xs) = ([], Inl e)"
      by (rule released_samples_Inl [OF Inl])
    then show ?thesis using Cons.prems by simp
  next
    case (Inr r)
    obtain p2 evs where r: "OnRemoteReleased_signal p x = Inr (p2, evs)"
      using Inr by (cases r) simp
    note u1 = released_samples_Inr [OF r, of xs]
    note u2 = released_samples_Inr [OF r, of "xs @ ys"]
    have "snd (OnRemoteReleased_samples p2 xs) = Inr p1"
      using Cons.prems unfolding u1 by simp
    from Cons.IH [OF this] show ?thesis
      unfolding append_Cons u1 u2 by simp
  qed
qed

subsection \<open>One pass of the engines\<close>

lemma OnRemotePressed_idle:
  assumes "parseChannel (Name signal) = Inr c" "Value signal = 0"
  shows "OnRemotePressed_signal p signal = Inr (clear_buttons c buttons p, [])"
  using assms by (simp add: OnRemotePressed_signal_def)

lemma OnRemotePressed_press:
  assumes "parseChannel (Name signal) = Inr c" "Value signal \<noteq> 0"
  shows "OnRemotePressed_signal p signal =
     (if p (buttonID c (Value signal)) = Some True then Inr (p, [])
      else Inr (p(buttonID c (Value signal) \<mapsto> True), [(c, Value signal)]))"
  using assms by (simp add: OnRemotePressed_signal_def Let_def)

lemma OnRemotePressed_signal_Inr:
  "OnRemotePressed_signal p x = Inr r \<Longrightarrow> \<exists>c. parseChannel (Name x) = Inr c"
  by (cases "parseChannel (Name x)") (simp_all add: OnRemotePressed_signal_def)

subsection \<open>The pressed-mode engine between idle samples\<close>

lemma pressed_samples_total:
  assumes "parseChannel n = Inr c" "\<forall>x\<in>set xs. Name x = n"
  shows "\<exists>p'. snd (OnRemotePressed_samples p xs) = Inr p'"
  using assms(2)
proof (induction xs arbitrary: p)
  case Nil
  then show ?case by simp
next
  case (Cons x xs)
  then have c: "parseChannel (Name x) = Inr c" using assms(1) by simp
  obtain p1 evs where r: "OnRemotePressed_signal p x = Inr (p1, evs)"
    using OnRemotePressed_idle [OF c] OnRemotePressed_press [OF c]
    by (cases "Value x = 0"; cases "p (buttonID c (Value x)) = Some True") auto
  obtain p2 where "snd (OnRemotePressed_samples p1 xs) = Inr p2"
    using Cons by auto
  then show ?case unfolding pressed_samples_Inr [OF r] by simp
qed

lemma pressed_idle_free:
  assumes "\<forall>x\<in>set seg. Value x \<noteq> 0"
  shows "distinct (fst (OnRemotePressed_samples p seg)) \<and>
         (\<forall>e\<in>set (fst (OnRemotePressed_samples p seg)).
            p (buttonID (fst e) (snd e)) \<noteq> Some True \<and>
            (\<exists>x\<in>set seg. parseChannel (Name x) = Inr (fst e) \<and> Value x = snd e))"
  using assms
proof (induction seg arbitrary: p)
  case Nil
  then show ?case by simp
next
  case (Cons x seg)
  show ?case
  proof (cases "OnRemotePressed_signal p x")
    case (Inl e)
    show ?thesis unfolding pressed_samples_Inl [OF Inl] by simp
  next
    case (Inr r)
    obtain c where c: "parseChannel (Name x) = Inr c"
      using OnRemotePressed_signal_Inr [OF Inr] by blast
    have nz: "Value x \<noteq> 0" using Cons.prems by simp
    let ?k = "buttonID c (Value x)"
    show ?thesis
    proof (cases "p ?k = Some True")
      case True
      then have r: "OnRemotePressed_signal p x = Inr (p, [])"
        using OnRemotePressed_press [OF c nz] by simp
      have IH: "distinct (fst (OnRemotePressed_samples p seg)) \<and>
         (\<forall>e\<in>set (fst (OnRemotePressed_samples p seg)).
            p (buttonID (fst e) (snd e)) \<noteq> Some True \<and>
            (\<exists>x\<in>set seg. parseChannel (Name x) = Inr (fst e) \<and> Value x = snd e))"
        by (rule Cons.IH) (use Cons.prems in simp)
      then show ?thesis unfolding pressed_samples_Inr [OF r] by auto
    next
      case False
      let ?p1 = "p(?k \<mapsto> True)"
      let ?evs = "fst (OnRemotePressed_samples ?p1 seg)"
      have r: "OnRemotePressed_signal p x = Inr (?p1, [(c, Value x)])"
        using False OnRemotePressed_press [OF c nz] by simp
      have IH: "distinct ?evs \<and>
         (\<forall>e\<in>set ?evs.
            ?p1 (buttonID (fst e) (snd e)) \<noteq> Some True \<and>
            (\<exists>x\<in>set seg. parseChannel (Name x) = Inr (fst e) \<and> Value x = snd e))"
        by (rule Cons.IH) (use Cons.prems in simp)
      have notin: "(c, Value x) \<notin> set ?evs"
      proof
        assume "(c, Value x) \<in> set ?evs"
        with IH have "?p1 (buttonID (fst (c, Value x)) (snd (c, Value x))) \<noteq> Some True"
          by blast
        then show False by simp
      qed
      have old: "\<forall>e\<in>set ?evs. p (buttonID (fst e) (snd e)) \<noteq> Some True"
      proof
        fix e assume e: "e \<in> set ?evs"
        with IH have "?p1 (buttonID (fst e) (snd e)) \<noteq> Some True" by blast
        then show "p (buttonID (fst e) (snd e)) \<noteq> Some True"
          by (cases "buttonID (fst e) (snd e) = ?k") simp_all
      qed
      have src: "\<forall>e\<in>set ?evs. \<exists>y\<in>set (x # seg). parseChannel (Name y) = Inr (fst e) \<and> Value y = snd e"
        using IH by auto
      show ?thesis
        unfolding pressed_samples_Inr [OF r] using IH notin old src False c by simp
    qed
  qed
qed


lemma pressed_scenario_1:
  "fst (OnRemotePressed_samples Map.empty
      [\<lparr>Name = ''value0'', Value = 0\<rparr>, \<lparr>Name = ''value0'', Value = 1\<rparr>,
       \<lparr>Name = ''value0'', Value = 1\<rparr>, \<lparr>Name = ''value0'', Value = 1\<rparr>,
       \<lparr>Name = ''value0'', Value = 0\<rparr>]) = [(Channel1, RedUp)]"
  by (simp add: OnRemotePressed_samples.simps(2) OnRemotePressed_signal_def parseChannel_def
      buttonID_def buttons_def Channel1_def RedUp_def RedDown_def BlueUp_def BlueDown_def)

subsection \<open>Press, idle, press\<close>

lemma pressed_scenario_3:
  "fst (OnRemotePressed_samples Map.empty
      [\<lparr>Name = ''value0'', Value = 1\<rparr>, \<lparr>Name = ''value0'', Value = 0\<rparr>,
       \<lparr>Name = ''value0'', Value = 1\<rparr>, \<lparr>Name = ''value0'', Value = 0\<rparr>]) =
   [(Channel1, RedUp), (Channel1, RedUp)]"
  by (simp add: OnRemotePressed_samples.simps(2) OnRemotePressed_signal_def parseChannel_def
      buttonID_def buttons_def Channel1_def RedUp_def RedDown_def BlueUp_def BlueDown_def)

lemma button_nonzero: "b \<in> set buttons \<Longrightarrow> b \<noteq> 0"
  by (auto simp: buttons_def RedUp_def RedDown_def BlueUp_def BlueDown_def)

lemma pressed_after_idle_fires:
  assumes c: "parseChannel n = Inr c" and b: "b \<in> set buttons"
  shows "fst (OnRemotePressed_samples p
            [\<lparr>Name = n, Value = 0\<rparr>, \<lparr>Name = n, Value = b\<rparr>]) = [(c, b)]"
proof -
  let ?p1 = "clear_buttons c buttons p"
  have r1: "OnRemotePressed_signal p \<lparr>Name = n, Value = 0\<rparr> = Inr (?p1, [])"
    by (rule OnRemotePressed_idle) (use c in simp_all)
  have "?p1 (buttonID c b) = Some False"
    using b by (simp add: clear_buttons_apply)
  then have r2: "OnRemotePressed_signal ?p1 \<lparr>Name = n, Value = b\<rparr> =
      Inr (?p1(buttonID c b \<mapsto> True), [(c, b)])"
    using OnRemotePressed_press [of "\<lparr>Name = n, Value = b\<rparr>" c ?p1] c button_nonzero [OF b]
    by simp
  show ?thesis
    unfolding pressed_samples_Inr [OF r1] pressed_samples_Inr [OF r2] by simp
qed

lemma pressed_press_idle_press:
  assumes c: "parseChannel n = Inr c" and b: "b \<in> set buttons"
    and np: "p (buttonID c b) \<noteq> Some True"
  shows "fst (OnRemotePressed_samples p
            [\<lparr>Name = n, Value = b\<rparr>, \<lparr>Name = n, Value = 0\<rparr>, \<lparr>Name = n, Value = b\<rparr>]) =
         [(c, b), (c, b)]"
proof -
  have r0: "OnRemotePressed_signal p \<lparr>Name = n, Value = b\<rparr> =
      Inr (p(buttonID c b \<mapsto> True), [(c, b)])"
    using OnRemotePressed_press [of "\<lparr>Name = n, Value = b\<rparr>" c p] c button_nonzero [OF b] np
    by simp
  show ?thesis
    unfolding pressed_samples_Inr [OF r0] using pressed_after_idle_fires [OF c b] by simp
qed

subsection \<open>The released-mode engine\<close>

lemma OnRemoteReleased_idle:
  assumes "parseChannel (Name signal) = Inr c" "Value signal = 0"
  shows "OnRemoteReleased_signal p signal = Inr (release_buttons c buttons p)"
  using assms by (simp add: OnRemoteReleased_signal_def)

lemma OnRemoteReleased_press:
  assumes "parseChannel (Name signal) = Inr c" "Value signal \<noteq> 0"
  shows "OnRemoteReleased_signal p signal = Inr (p(buttonID c (Value signal) \<mapsto> True), [])"
  using assms by (simp add: OnRemoteReleased_signal_def)

lemma release_buttons_events:
  "distinct bs \<Longrightarrow>
   snd (release_buttons c bs p) = map (Pair c) (filter (\<lambda>b. p (buttonID c b) = Some True) bs)"
proof (induction bs arbitrary: p)
  case Nil
  then show ?case by simp
next
  case (Cons b bs)
  have d: "distinct bs" "b \<notin> set bs" using Cons.prems by simp_all
  show ?case
  proof (cases "p (buttonID c b) = Some True")
    case False
    then show ?thesis using Cons.IH [OF d(1), of p] by simp
  next
    case True
    let ?p1 = "p(buttonID c b \<mapsto> False)"
    have same: "filter (\<lambda>b'. ?p1 (buttonID c b') = Some True) bs =
                filter (\<lambda>b'. p (buttonID c b') = Some True) bs"
      using d(2) by (intro filter_cong) (auto simp: buttonID_same_channel)
    have "snd (release_buttons c (b # bs) p) = (c, b) # snd (release_buttons c bs ?p1)"
      using True by (simp add: case_prod_unfold)
    also have "snd (release_buttons c bs ?p1) =
        map (Pair c) (filter (\<lambda>b'. ?p1 (buttonID c b') = Some True) bs)"
      by (rule Cons.IH [OF d(1)])
    finally show ?thesis unfolding same using True by simp
  qed
qed

lemma release_buttons_state:
  "fst (release_buttons c bs p) k =
     (if k \<in> buttonID c ` {b \<in> set bs. p (buttonID c b) = Some True} then Some False else p k)"
proof (induction bs arbitrary: p)
  case Nil
  then show ?case by simp
next
  case (Cons b bs)
  show ?case
  proof (cases "p (buttonID c b) = Some True")
    case False
    then have "{b' \<in> set (b # bs). p (buttonID c b') = Some True} =
               {b' \<in> set bs. p (buttonID c b') = Some True}"
      by auto
    then show ?thesis using False Cons.IH [of p] by simp
  next
    case True
    let ?p1 = "p(buttonID c b \<mapsto> False)"
    have sets: "{b' \<in> set (b # bs). p (buttonID c b') = Some True} =
                insert b {b' \<in> set bs. ?p1 (buttonID c b') = Some True}"
      using True by (auto simp: buttonID_same_channel)
    have "fst (release_buttons c (b # bs) p) k = fst (release_buttons c bs ?p1) k"
      using True by (simp add: case_prod_unfold)
    also have "\<dots> = (if k \<in> buttonID c ` {b' \<in> set bs. ?p1 (buttonID c b') = Some True}
                      then Some False else ?p1 k)"
      by (rule Cons.IH)
    also have "\<dots> = (if k \<in> buttonID c ` {b' \<in> set (b # bs). p (buttonID c b') = Some True}
                      then Some False else p k)"
      unfolding sets by auto
    finally show ?thesis .
  qed
qed

lemma distinct_buttons: "distinct buttons"
  by (simp add: buttons_def RedUp_def RedDown_def BlueUp_def BlueDown_def)

lemma release_buttons_clear:
  "b \<in> set buttons \<Longrightarrow> fst (release_buttons c buttons p) (buttonID c b) \<noteq> Some True"
  by (auto simp: release_buttons_state)

lemma released_presses:
  assumes c: "parseChannel n = Inr c"
  shows "\<forall>x\<in>set seg. Name x = n \<and> Value x \<noteq> 0 \<Longrightarrow>
         OnRemoteReleased_samples p seg =
           ([], Inr (\<lambda>k. if k \<in> buttonID c ` Value ` set seg then Some True else p k))"
proof (induction seg arbitrary: p)
  case Nil
  then show ?case by simp
next
  case (Cons x seg)
  have r: "OnRemoteReleased_signal p x = Inr (p(buttonID c (Value x) \<mapsto> True), [])"
    by (rule OnRemoteReleased_press) (use Cons.prems c in simp_all)
  have IH: "OnRemoteReleased_samples (p(buttonID c (Value x) \<mapsto> True)) seg =
      ([], Inr (\<lambda>k. if k \<in> buttonID c ` Value ` set seg then Some True
                     else (p(buttonID c (Value x) \<mapsto> True)) k))"
    by (rule Cons.IH) (use Cons.prems in simp)
  have "(\<lambda>k. if k \<in> buttonID c ` Value ` set seg then Some True
              else (p(buttonID c (Value x) \<mapsto> True)) k) =
        (\<lambda>k. if k \<in> buttonID c ` Value ` set (x # seg) then Some True else p k)"
    by (rule ext) auto
  then show ?case unfolding released_samples_Inr [OF r] IH by simp
qed

lemma released_samples_total:
  assumes "parseChannel n = Inr c" "\<forall>x\<in>set xs. Name x = n"
  shows "\<exists>p'. snd (OnRemoteReleased_samples p xs) = Inr p'"
  using assms(2)
proof (induction xs arbitrary: p)
  case Nil
  then show ?case by simp
next
  case (Cons x xs)
  then have c: "parseChannel (Name x) = Inr c" using assms(1) by simp
  obtain p1 evs where r: "OnRemoteReleased_signal p x = Inr (p1, evs)"
    using OnRemoteReleased_idle [OF c] OnRemoteReleased_press [OF c]
    by (cases "Value x = 0"; cases "release_buttons c buttons p") auto
  obtain p2 where "snd (OnRemoteReleased_samples p1 xs) = Inr p2"
    using Cons by auto
  then show ?case unfolding released_samples_Inr [OF r] by simp
qed

lemma released_samples_idle_last:
  assumes c: "parseChannel n = Inr c"
    and p1: "snd (OnRemoteReleased_samples p xs) = Inr p1"
  shows "OnRemoteReleased_samples p (xs @ [\<lparr>Name = n, Value = 0\<rparr>]) =
           (fst (OnRemoteReleased_samples p xs) @ snd (release_buttons c buttons p1),
            Inr (fst (release_buttons c buttons p1)))"
proof -
  have r: "OnRemoteReleased_signal p1 \<lparr>Name = n, Value = 0\<rparr> =
      Inr (fst (release_buttons c buttons p1), snd (release_buttons c buttons p1))"
    using OnRemoteReleased_idle [of "\<lparr>Name = n, Value = 0\<rparr>" c p1] c by simp
  show ?thesis
    unfolding released_samples_append [OF p1] released_samples_Inr [OF r] by simp
qed

lemma released_clear_after_idle:
  assumes c: "parseChannel n = Inr c" and names: "\<forall>x\<in>set pre. Name x = n"
    and last: "pre = [] \<or> Value (last pre) = 0"
  shows "\<exists>p1. snd (OnRemoteReleased_samples Map.empty pre) = Inr p1 \<and>
              (\<forall>b\<in>set buttons. p1 (buttonID c b) \<noteq> Some True)"
proof (cases "pre = []")
  case True
  then show ?thesis by simp
next
  case False
  then have pre: "pre = butlast pre @ [last pre]" by simp
  have "Name (last pre) = n" "Value (last pre) = 0"
    using False names last by auto
  then have lp: "last pre = \<lparr>Name = n, Value = 0\<rparr>" by (cases "last pre") simp
  have "\<forall>x\<in>set (butlast pre). Name x = n"
    using names by (meson in_set_butlastD)
  then obtain p0 where p0: "snd (OnRemoteReleased_samples Map.empty (butlast pre)) = Inr p0"
    using released_samples_total [OF c] by blast
  have "snd (OnRemoteReleased_samples Map.empty (butlast pre @ [\<lparr>Name = n, Value = 0\<rparr>])) =
        Inr (fst (release_buttons c buttons p0))"
    unfolding released_samples_idle_last [OF c p0] by simp
  then have "snd (OnRemoteReleased_samples Map.empty pre) = Inr (fst (release_buttons c buttons p0))"
    using pre lp by simp
  then show ?thesis using release_buttons_clear by blast
qed

subsection \<open>Released mode on one channel\<close>

lemma released_scenario_2:
  "fst (OnRemoteReleased_samples Map.empty
      [\<lparr>Name = ''value1'', Value = 3\<rparr>, \<lparr>Name = ''value1'', Value = 3\<rparr>]) = []
   \<and> fst (OnRemoteReleased_samples Map.empty
      [\<lparr>Name = ''value1'', Value = 3\<rparr>, \<lparr>Name = ''value1'', Value = 3\<rparr>,
       \<lparr>Name = ''value1'', Value = 0\<rparr>]) = [(Channel2, BlueUp)]"
  by (simp add: OnRemoteReleased_samples.simps(2) OnRemoteReleased_signal_def parseChannel_def
      buttonID_def buttons_def Channel2_def RedUp_def RedDown_def BlueUp_def BlueDown_def)

lemma released_all_idle:
  "\<forall>x\<in>set xs. Name x = n \<and> Value x = 0 \<Longrightarrow>
   \<forall>k. p k \<noteq> Some True \<Longrightarrow> fst (OnRemoteReleased_samples p xs) = []"
proof (induction xs arbitrary: p)
  case Nil
  then show ?case by simp
next
  case (Cons x xs)
  show ?case
  proof (cases "parseChannel (Name x)")
    case (Inl e)
    then have "OnRemoteReleased_signal p x = Inl e"
      by (simp add: OnRemoteReleased_signal_def)
    then show ?thesis by (simp add: released_samples_Inl)
  next
    case (Inr c)
    let ?p1 = "fst (release_buttons c buttons p)"
    have ev: "snd (release_buttons c buttons p) = []"
      using Cons.prems(2) by (simp add: release_buttons_events distinct_buttons)
    have r: "OnRemoteReleased_signal p x = Inr (?p1, [])"
      using OnRemoteReleased_idle [OF Inr, of p] Cons.prems(1) ev
      by (metis list.set_intros(1) prod.collapse)
    have "\<forall>k. ?p1 k \<noteq> Some True"
      using Cons.prems(2) by (simp add: release_buttons_state)
    then have "fst (OnRemoteReleased_samples ?p1 xs) = []"
      by (intro Cons.IH) (use Cons.prems(1) in simp)
    then show ?thesis unfolding released_samples_Inr [OF r] by simp
  qed
qed

lemma OnRemoteReleased_signal_Inr:
  "OnRemoteReleased_signal p x = Inr r \<Longrightarrow> \<exists>c. parseChannel (Name x) = Inr c"
  by (cases "parseChannel (Name x)") (simp_all add: OnRemoteReleased_signal_def)

subsection \<open>Parsing a channel file\<close>

lemma foldl_digits_ge:
  "n \<le> foldl (\<lambda>n ch. n * 10 + ((of_char ch :: nat) - 48)) n str"
proof (induction str arbitrary: n)
  case Nil
  then show ?case by simp
next
  case (Cons ch str)
  have "n \<le> n * 10 + ((of_char ch :: nat) - 48)" by simp
  also have "\<dots> \<le> foldl (\<lambda>n ch. n * 10 + ((of_char ch :: nat) - 48)) (n * 10 + ((of_char ch :: nat) - 48)) str"
    by (rule Cons.IH)
  finally show ?case by simp
qed

lemma ParseUint_digits_Inr:
  "n \<le> 65535 \<Longrightarrow>
   (ParseUint_digits n str = Inr m) =
     (list_all (\<lambda>ch. 48 \<le> (of_char ch :: nat) \<and> (of_char ch :: nat) \<le> 57) str
      \<and> foldl (\<lambda>n ch. n * 10 + ((of_char ch :: nat) - 48)) n str \<le> 65535
      \<and> m = foldl (\<lambda>n ch. n * 10 + ((of_char ch :: nat) - 48)) n str)"
proof (induction str arbitrary: n)
  case Nil
  then show ?case by auto
next
  case (Cons ch str)
  define f where "f = (\<lambda>n ch. n * 10 + ((of_char ch :: nat) - 48))"
  define dg where "dg = (\<lambda>ch. 48 \<le> (of_char ch :: nat) \<and> (of_char ch :: nat) \<le> 57)"
  have IH: "\<And>k. k \<le> 65535 \<Longrightarrow>
      (ParseUint_digits k str = Inr m) =
        (list_all dg str \<and> foldl f k str \<le> 65535 \<and> m = foldl f k str)"
    unfolding f_def dg_def by (rule Cons.IH)
  have ge: "\<And>k. k \<le> foldl f k str"
    unfolding f_def by (rule foldl_digits_ge)
  have step: "ParseUint_digits n (ch # str) =
      (if \<not> dg ch then Inl ErrSyntax
       else if f n ch > 65535 then Inl ErrRange else ParseUint_digits (f n ch) str)"
    unfolding f_def dg_def by (auto simp: Let_def)
  have goal: "(ParseUint_digits n (ch # str) = Inr m) =
     (list_all dg (ch # str) \<and> foldl f n (ch # str) \<le> 65535 \<and> m = foldl f n (ch # str))"
  proof (cases "dg ch")
    case False
    then show ?thesis unfolding step by simp
  next
    case True
    show ?thesis
    proof (cases "f n ch > 65535")
      case big: True
      then have "foldl f (f n ch) str > 65535"
        using ge [of "f n ch"] by simp
      then show ?thesis unfolding step using True big by simp
    next
      case False
      then have "f n ch \<le> 65535" by simp
      from IH [OF this] show ?thesis unfolding step using True False by simp
    qed
  qed
  then show ?case unfolding f_def dg_def .
qed

lemma ParseUint_10_16_Inr:
  "(ParseUint_10_16 str = Inr w) =
     (is_decimal str \<and> decimal_value str \<le> 65535 \<and> w = of_nat (decimal_value str))"
proof (cases "str = []")
  case True
  then show ?thesis by (simp add: ParseUint_10_16_def is_decimal_def)
next
  case False
  have "(ParseUint_10_16 str = Inr w) = (\<exists>m. ParseUint_digits 0 str = Inr m \<and> w = of_nat m)"
    using False by (auto simp: ParseUint_10_16_def split: sum.splits)
  then show ?thesis
    using False ParseUint_digits_Inr [of 0 str] unfolding is_decimal_def decimal_value_def by auto
qed

lemma ParseUint_10_16_fails:
  "(\<exists>e. ParseUint_10_16 str = Inl e) = (\<not> (is_decimal str \<and> decimal_value str \<le> 65535))"
proof -
  have "(\<exists>e. ParseUint_10_16 str = Inl e) = (\<not> (\<exists>w. ParseUint_10_16 str = Inr w))"
    by (cases "ParseUint_10_16 str") auto
  then show ?thesis unfolding ParseUint_10_16_Inr by simp
qed


lemma parseChannel_Inl:
  "name \<notin> set sampler_names \<Longrightarrow> parseChannel name = Inl FatalInvalidChannel"
  by (simp add: sampler_names_def parseChannel_def)

lemma pollRemote_tick_parse:
  "pollRemote_tick name (Some bytes) True =
     (case ParseUint_10_16 (Trim bytes space_newline) of
        Inl e \<Rightarrow> Inl (FatalParse e)
      | Inr b \<Rightarrow> Inr \<lparr>Name = name, Value = b\<rparr>)"
  by (simp add: pollRemote_tick_def)

subsection \<open>Steps of one registration\<close>

lemma session_step_returned:
  assumes "engine st = Returned" "session_step m a st = Some (Inr st')"
  shows "engine st' = Returned \<and> fired st' = fired st \<and> pressed st' = pressed st"
  using assms
  by (cases a) (auto split: if_splits sampler.splits sum.splits)

lemma session_run_returned:
  "engine st = Returned \<Longrightarrow> session_run m acts st = Some (Inr st') \<Longrightarrow>
   engine st' = Returned \<and> fired st' = fired st \<and> pressed st' = pressed st"
proof (induction acts arbitrary: st)
  case Nil
  then show ?case by simp
next
  case (Cons a acts)
  from Cons.prems(2) obtain st1 where st1: "session_step m a st = Some (Inr st1)"
      and run: "session_run m acts st1 = Some (Inr st')"
    by (auto split: option.splits sum.splits if_splits)
  have 1: "engine st1 = Returned \<and> fired st1 = fired st \<and> pressed st1 = pressed st"
    by (rule session_step_returned [OF Cons.prems(1) st1])
  then have "engine st' = Returned \<and> fired st' = fired st1 \<and> pressed st' = pressed st1"
    using Cons.IH [OF _ run] by simp
  with 1 show ?case by simp
qed

lemma session_step_capacity:
  assumes "session_step m a st = Some (Inr st')" "length (s st) \<le> s_capacity"
  shows "length (s st') \<le> s_capacity"
  using assms
  by (cases a) (auto split: if_splits list.splits sampler.splits sum.splits)

lemma session_step_fifo:
  assumes "session_step m a st = Some (Inr st')" "enqueued st = dequeued st @ s st"
  shows "enqueued st' = dequeued st' @ s st'"
  using assms
  by (cases a) (auto split: if_splits list.splits sampler.splits sum.splits)

lemma session_step_pending:
  assumes "session_step m a st = Some (Inr st')" "samplers st ! i = Sending signal"
    "a \<noteq> SamplerSend i"
  shows "samplers st' ! i = Sending signal"
proof (cases a)
  case (SamplerOpen j ok)
  then have "j \<noteq> i" using assms by (auto split: if_splits)
  then show ?thesis using assms SamplerOpen by (auto split: if_splits)
next
  case (SamplerStop j)
  then have "j \<noteq> i" using assms by (auto split: if_splits)
  then show ?thesis using assms SamplerStop by (auto split: if_splits)
next
  case (SamplerPoll j data seek_ok)
  then have "j \<noteq> i" using assms by (auto split: if_splits)
  then show ?thesis using assms SamplerPoll by (auto split: if_splits sum.splits)
next
  case (SamplerSend j)
  then have "j \<noteq> i" using assms by simp
  then show ?thesis using assms SamplerSend by (auto split: if_splits sampler.splits)
qed (use assms in \<open>auto split: if_splits list.splits sum.splits\<close>)

subsection \<open>Runs of one registration\<close>

lemma session_run_Cons_Inr:
  assumes "session_run m (a # acts) st = Some (Inr st')"
  obtains st1 where "session_step m a st = Some (Inr st1)" "session_run m acts st1 = Some (Inr st')"
  using assms by (auto split: option.splits sum.splits if_splits)

lemma session_run_capacity:
  "session_run m acts st = Some (Inr st') \<Longrightarrow> length (s st) \<le> s_capacity \<Longrightarrow>
   length (s st') \<le> s_capacity"
proof (induction acts arbitrary: st)
  case Nil
  then show ?case by simp
next
  case (Cons a acts)
  from Cons.prems(1) obtain st1 where st1: "session_step m a st = Some (Inr st1)"
      and run: "session_run m acts st1 = Some (Inr st')"
    by (rule session_run_Cons_Inr)
  have "length (s st1) \<le> s_capacity"
    by (rule session_step_capacity [OF st1 Cons.prems(2)])
  then show ?case by (rule Cons.IH [OF run])
qed

lemma session_run_fifo:
  "session_run m acts st = Some (Inr st') \<Longrightarrow> enqueued st = dequeued st @ s st \<Longrightarrow>
   enqueued st' = dequeued st' @ s st'"
proof (induction acts arbitrary: st)
  case Nil
  then show ?case by simp
next
  case (Cons a acts)
  from Cons.prems(1) obtain st1 where st1: "session_step m a st = Some (Inr st1)"
      and run: "session_run m acts st1 = Some (Inr st')"
    by (rule session_run_Cons_Inr)
  have "enqueued st1 = dequeued st1 @ s st1"
    by (rule session_step_fifo [OF st1 Cons.prems(2)])
  then show ?case by (rule Cons.IH [OF run])
qed

lemma engine_samples_snoc:
  assumes "engine_samples m p0 xs = (evs, Inr p)" "engine_signal m p x = Inr (p', evs')"
  shows "engine_samples m p0 (xs @ [x]) = (evs @ evs', Inr p')"
proof (cases m)
  case PressedMode
  have 1: "snd (OnRemotePressed_samples p0 xs) = Inr p" "fst (OnRemotePressed_samples p0 xs) = evs"
    using assms(1) PressedMode by (simp_all add: engine_samples_def)
  have 2: "OnRemotePressed_signal p x = Inr (p', evs')"
    using assms(2) PressedMode by (simp add: engine_signal_def)
  show ?thesis
    unfolding engine_samples_def PressedMode
    using pressed_samples_append [OF 1(1), of "[x]"] pressed_samples_Inr [OF 2, of "[]"] 1(2)
    by simp
next
  case ReleasedMode
  have 1: "snd (OnRemoteReleased_samples p0 xs) = Inr p" "fst (OnRemoteReleased_samples p0 xs) = evs"
    using assms(1) ReleasedMode by (simp_all add: engine_samples_def)
  have 2: "OnRemoteReleased_signal p x = Inr (p', evs')"
    using assms(2) ReleasedMode by (simp add: engine_signal_def)
  show ?thesis
    unfolding engine_samples_def ReleasedMode
    using released_samples_append [OF 1(1), of "[x]"] released_samples_Inr [OF 2, of "[]"] 1(2)
    by simp
qed

lemma session_step_engine:
  assumes step: "session_step m a st = Some (Inr st')"
    and inv: "engine_samples m p0 (dequeued st) = (fired st, Inr (pressed st))"
  shows "engine_samples m p0 (dequeued st') = (fired st', Inr (pressed st'))"
proof (cases a)
  case EngineRecv
  from step EngineRecv obtain signal q p' evs where
      q: "s st = signal # q" and r: "engine_signal m (pressed st) signal = Inr (p', evs)"
      and st': "st' = st\<lparr>s := q, pressed := p', fired := fired st @ evs,
                          dequeued := dequeued st @ [signal]\<rparr>"
    by (auto split: if_splits list.splits sum.splits)
  show ?thesis
    using engine_samples_snoc [OF inv r] st' by simp
qed (use assms in \<open>auto split: if_splits list.splits sampler.splits sum.splits\<close>)

lemma session_run_engine:
  "session_run m acts st = Some (Inr st') \<Longrightarrow>
   engine_samples m p0 (dequeued st) = (fired st, Inr (pressed st)) \<Longrightarrow>
   engine_samples m p0 (dequeued st') = (fired st', Inr (pressed st'))"
proof (induction acts arbitrary: st)
  case Nil
  then show ?case by simp
next
  case (Cons a acts)
  from Cons.prems(1) obtain st1 where st1: "session_step m a st = Some (Inr st1)"
      and run: "session_run m acts st1 = Some (Inr st')"
    by (rule session_run_Cons_Inr)
  have "engine_samples m p0 (dequeued st1) = (fired st1, Inr (pressed st1))"
    by (rule session_step_engine [OF st1 Cons.prems(2)])
  then show ?case by (rule Cons.IH [OF run])
qed

lemma new_session_engine:
  "engine_samples m Map.empty (dequeued new_session) = (fired new_session, Inr (pressed new_session))"
  by (cases m) (simp_all add: engine_samples_def new_session_def)

subsection \<open>Evaluating concrete runs\<close>

lemmas eval_defs =
  new_session_def s_capacity_def sampler_names_def engine_signal_def
  pollRemote_tick_def Trim_def space_newline_def ParseUint_10_16_def
  OnRemotePressed_signal_def OnRemoteReleased_signal_def parseChannel_def buttonID_def
  buttons_def Channel1_def Channel2_def Channel3_def Channel4_def
  RedUp_def RedDown_def BlueUp_def BlueDown_def

lemma new_session_queue:
  "length (s new_session) \<le> s_capacity"
  "enqueued new_session = dequeued new_session @ s new_session"
  by (simp_all add: new_session_def)

subsection \<open>Two registrations\<close>

lemma process_run_sessions:
  "(process_run (m1, m2) acts (st1, st2) = Some (Inr (st1', st2'))) =
     (session_run m1 (first_actions acts) st1 = Some (Inr st1')
      \<and> session_run m2 (second_actions acts) st2 = Some (Inr st2'))"
proof (induction acts arbitrary: st1 st2)
  case Nil
  then show ?case by auto
next
  case (Cons a acts)
  show ?case
  proof (cases a)
    case (Inl x)
    show ?thesis
    proof (cases "session_step m1 x st1")
      case None
      then show ?thesis using Inl by simp
    next
      case (Some r)
      show ?thesis
      proof (cases r)
        case (Inl e)
        then show ?thesis using Some \<open>a = Inl x\<close> by simp
      next
        case (Inr st1a)
        then show ?thesis using Some \<open>a = Inl x\<close> Cons.IH [of st1a st2] by simp
      qed
    qed
  next
    case (Inr y)
    show ?thesis
    proof (cases "session_step m2 y st2")
      case None
      then show ?thesis using Inr by simp
    next
      case (Some r)
      show ?thesis
      proof (cases r)
        case (Inl e)
        then show ?thesis using Some \<open>a = Inr y\<close> by simp
      next
        case (Inr st2a)
        then show ?thesis using Some \<open>a = Inr y\<close> Cons.IH [of st1 st2a] by simp
      qed
    qed
  qed
qed

subsection \<open>Released mode on interleaved channels\<close>

lemma sampler_name_channel:
  "n \<in> set sampler_names \<Longrightarrow> \<exists>c. parseChannel n = Inr c"
  by (auto simp: sampler_names_def parseChannel_def)

lemma parseChannel_inj:
  "parseChannel n = Inr c \<Longrightarrow> parseChannel n' = Inr c \<Longrightarrow> n = n'"
  by (simp add: parseChannel_def Channel1_def Channel2_def Channel3_def Channel4_def
      split: if_splits)

lemma released_signal_other_channel:
  assumes c': "parseChannel (Name x) = Inr c'" and c: "c \<in> set channels" and ne: "c' \<noteq> c"
    and v: "Value x = 0 \<or> Value x \<in> set buttons"
  shows "\<exists>p' evs. OnRemoteReleased_signal p x = Inr (p', evs)
           \<and> (\<forall>b\<in>set buttons. p' (buttonID c b) = p (buttonID c b))
           \<and> (\<forall>e\<in>set evs. fst e = c')"
proof (cases "Value x = 0")
  case True
  let ?p' = "fst (release_buttons c' buttons p)"
  let ?evs = "snd (release_buttons c' buttons p)"
  have r: "OnRemoteReleased_signal p x = Inr (?p', ?evs)"
    using OnRemoteReleased_idle [OF c' True, of p] by simp
  have keep: "\<forall>b\<in>set buttons. ?p' (buttonID c b) = p (buttonID c b)"
  proof
    fix b assume b: "b \<in> set buttons"
    have "buttonID c b \<notin> buttonID c' ` {b' \<in> set buttons. p (buttonID c' b') = Some True}"
    proof
      assume "buttonID c b \<in> buttonID c' ` {b' \<in> set buttons. p (buttonID c' b') = Some True}"
      then obtain b' where "b' \<in> set buttons" "buttonID c b = buttonID c' b'" by blast
      then show False
        using buttonID_eq_iff [OF c parseChannel_channels [OF c'] b] ne by simp
    qed
    then show "?p' (buttonID c b) = p (buttonID c b)"
      by (simp add: release_buttons_state)
  qed
  have "\<forall>e\<in>set ?evs. fst e = c'"
    by (auto simp: release_buttons_events [OF distinct_buttons])
  with r keep show ?thesis by blast
next
  case False
  then have vb: "Value x \<in> set buttons" using v by simp
  have r: "OnRemoteReleased_signal p x = Inr (p(buttonID c' (Value x) \<mapsto> True), [])"
    by (rule OnRemoteReleased_press [OF c' False])
  have "\<forall>b\<in>set buttons. (p(buttonID c' (Value x) \<mapsto> True)) (buttonID c b) = p (buttonID c b)"
  proof
    fix b assume b: "b \<in> set buttons"
    have "buttonID c b \<noteq> buttonID c' (Value x)"
      using buttonID_eq_iff [OF c parseChannel_channels [OF c'] b vb] ne by simp
    then show "(p(buttonID c' (Value x) \<mapsto> True)) (buttonID c b) = p (buttonID c b)"
      by simp
  qed
  with r show ?thesis by simp
qed

lemma released_signal_same_channel:
  assumes c: "parseChannel (Name x) = Inr c"
    and agree: "\<forall>b\<in>set buttons. p (buttonID c b) = q (buttonID c b)"
    and v: "Value x = 0 \<or> Value x \<in> set buttons"
  shows "\<exists>p' q' evs. OnRemoteReleased_signal p x = Inr (p', evs)
           \<and> OnRemoteReleased_signal q x = Inr (q', evs)
           \<and> (\<forall>b\<in>set buttons. p' (buttonID c b) = q' (buttonID c b))
           \<and> (\<forall>e\<in>set evs. fst e = c)"
proof (cases "Value x = 0")
  case True
  let ?p' = "fst (release_buttons c buttons p)"
  let ?q' = "fst (release_buttons c buttons q)"
  let ?evs = "snd (release_buttons c buttons p)"
  have same_filter: "filter (\<lambda>b. p (buttonID c b) = Some True) buttons =
                     filter (\<lambda>b. q (buttonID c b) = Some True) buttons"
    using agree by (intro filter_cong) simp_all
  then have same_evs: "snd (release_buttons c buttons q) = ?evs"
    by (simp add: release_buttons_events [OF distinct_buttons])
  have same_set: "{b \<in> set buttons. p (buttonID c b) = Some True} =
                  {b \<in> set buttons. q (buttonID c b) = Some True}"
    using agree by auto
  have rp: "OnRemoteReleased_signal p x = Inr (?p', ?evs)"
    using OnRemoteReleased_idle [OF c True, of p] by simp
  have rq: "OnRemoteReleased_signal q x = Inr (?q', ?evs)"
    using OnRemoteReleased_idle [OF c True, of q] same_evs by (metis prod.collapse)
  have ag: "\<forall>b\<in>set buttons. ?p' (buttonID c b) = ?q' (buttonID c b)"
    using agree by (simp add: release_buttons_state same_set)
  have "\<forall>e\<in>set ?evs. fst e = c"
    by (auto simp: release_buttons_events [OF distinct_buttons])
  with rp rq ag show ?thesis by blast
next
  case False
  have rp: "OnRemoteReleased_signal p x = Inr (p(buttonID c (Value x) \<mapsto> True), [])"
    by (rule OnRemoteReleased_press [OF c False])
  have rq: "OnRemoteReleased_signal q x = Inr (q(buttonID c (Value x) \<mapsto> True), [])"
    by (rule OnRemoteReleased_press [OF c False])
  have "\<forall>b\<in>set buttons. (p(buttonID c (Value x) \<mapsto> True)) (buttonID c b) =
                         (q(buttonID c (Value x) \<mapsto> True)) (buttonID c b)"
    using agree by simp
  with rp rq show ?thesis by simp
qed


lemma released_channel_projection:
  assumes c: "parseChannel n = Inr c"
  shows "\<forall>x\<in>set xs. Name x \<in> set sampler_names \<and> (Value x = 0 \<or> Value x \<in> set buttons) \<Longrightarrow>
         \<forall>b\<in>set buttons. p (buttonID c b) = q (buttonID c b) \<Longrightarrow>
         \<exists>p' q'. snd (OnRemoteReleased_samples p xs) = Inr p'
            \<and> snd (OnRemoteReleased_samples q (filter (\<lambda>x. Name x = n) xs)) = Inr q'
            \<and> (\<forall>b\<in>set buttons. p' (buttonID c b) = q' (buttonID c b))
            \<and> filter (\<lambda>e. fst e = c) (fst (OnRemoteReleased_samples p xs)) =
                fst (OnRemoteReleased_samples q (filter (\<lambda>x. Name x = n) xs))"
proof (induction xs arbitrary: p q)
  case Nil
  then show ?case by simp
next
  case (Cons x xs)
  have rest: "\<forall>y\<in>set xs. Name y \<in> set sampler_names \<and> (Value y = 0 \<or> Value y \<in> set buttons)"
    using Cons.prems(1) by simp
  have vx: "Value x = 0 \<or> Value x \<in> set buttons" using Cons.prems(1) by simp
  show ?case
  proof (cases "Name x = n")
    case True
    then have cx: "parseChannel (Name x) = Inr c" using c by simp
    obtain p1 q1 evs where rp: "OnRemoteReleased_signal p x = Inr (p1, evs)"
        and rq: "OnRemoteReleased_signal q x = Inr (q1, evs)"
        and ag: "\<forall>b\<in>set buttons. p1 (buttonID c b) = q1 (buttonID c b)"
        and ev: "\<forall>e\<in>set evs. fst e = c"
      using released_signal_same_channel [OF cx Cons.prems(2) vx] by blast
    obtain p' q' where IH: "snd (OnRemoteReleased_samples p1 xs) = Inr p'"
        "snd (OnRemoteReleased_samples q1 (filter (\<lambda>x. Name x = n) xs)) = Inr q'"
        "\<forall>b\<in>set buttons. p' (buttonID c b) = q' (buttonID c b)"
        "filter (\<lambda>e. fst e = c) (fst (OnRemoteReleased_samples p1 xs)) =
           fst (OnRemoteReleased_samples q1 (filter (\<lambda>x. Name x = n) xs))"
      using Cons.IH [OF rest ag] by blast
    have fe: "filter (\<lambda>e. fst e = c) evs = evs" using ev by simp
    have fx: "filter (\<lambda>x. Name x = n) (x # xs) = x # filter (\<lambda>x. Name x = n) xs"
      using True by simp
    show ?thesis
      unfolding fx released_samples_Inr [OF rp] released_samples_Inr [OF rq]
      using IH fe by simp
  next
    case False
    obtain c' where cx: "parseChannel (Name x) = Inr c'"
      using Cons.prems(1) sampler_name_channel by auto
    have ne: "c' \<noteq> c" using parseChannel_inj [OF cx] c False by blast
    obtain p1 evs where rp: "OnRemoteReleased_signal p x = Inr (p1, evs)"
        and keep: "\<forall>b\<in>set buttons. p1 (buttonID c b) = p (buttonID c b)"
        and ev: "\<forall>e\<in>set evs. fst e = c'"
      using released_signal_other_channel [OF cx parseChannel_channels [OF c] ne vx] by blast
    have ag: "\<forall>b\<in>set buttons. p1 (buttonID c b) = q (buttonID c b)"
      using keep Cons.prems(2) by simp
    obtain p' q' where IH: "snd (OnRemoteReleased_samples p1 xs) = Inr p'"
        "snd (OnRemoteReleased_samples q (filter (\<lambda>x. Name x = n) xs)) = Inr q'"
        "\<forall>b\<in>set buttons. p' (buttonID c b) = q' (buttonID c b)"
        "filter (\<lambda>e. fst e = c) (fst (OnRemoteReleased_samples p1 xs)) =
           fst (OnRemoteReleased_samples q (filter (\<lambda>x. Name x = n) xs))"
      using Cons.IH [OF rest ag] by blast
    have fe: "filter (\<lambda>e. fst e = c) evs = []" using ev ne by (simp add: filter_empty_conv)
    have fx: "filter (\<lambda>x. Name x = n) (x # xs) = filter (\<lambda>x. Name x = n) xs"
      using False by simp
    show ?thesis
      unfolding fx released_samples_Inr [OF rp]
      using IH fe by simp
  qed
qed

lemma released_single_channel_state:
  assumes c: "parseChannel n = Inr c"
    and names: "\<forall>x\<in>set (pre @ seg). Name x = n"
    and last: "pre = [] \<or> Value (last pre) = 0"
    and nz: "\<forall>x\<in>set seg. Value x \<noteq> 0"
  shows "\<exists>p2. OnRemoteReleased_samples Map.empty (pre @ seg) =
                (fst (OnRemoteReleased_samples Map.empty pre), Inr p2)
             \<and> (\<forall>b\<in>set buttons. (p2 (buttonID c b) = Some True) = (b \<in> Value ` set seg))"
proof -
  obtain p1 where p1: "snd (OnRemoteReleased_samples Map.empty pre) = Inr p1"
    and clear: "\<forall>b\<in>set buttons. p1 (buttonID c b) \<noteq> Some True"
    using released_clear_after_idle [OF c, of pre] names last by auto
  let ?p2 = "\<lambda>k. if k \<in> buttonID c ` Value ` set seg then Some True else p1 k"
  have seg: "OnRemoteReleased_samples p1 seg = ([], Inr ?p2)"
    by (rule released_presses [OF c]) (use names nz in simp)
  have whole: "OnRemoteReleased_samples Map.empty (pre @ seg) =
      (fst (OnRemoteReleased_samples Map.empty pre), Inr ?p2)"
    unfolding released_samples_append [OF p1] seg by simp
  have "\<forall>b\<in>set buttons. (?p2 (buttonID c b) = Some True) = (b \<in> Value ` set seg)"
  proof
    fix b assume b: "b \<in> set buttons"
    have "(buttonID c b \<in> buttonID c ` Value ` set seg) = (b \<in> Value ` set seg)"
      by (auto simp: buttonID_same_channel)
    then show "(?p2 (buttonID c b) = Some True) = (b \<in> Value ` set seg)"
      using clear b by simp
  qed
  with whole show ?thesis by blast
qed


lemma released_interleaved:
  fixes pre seg :: "RemoteSignal list"
  assumes c: "parseChannel n = Inr c"
    and ok: "\<forall>x\<in>set (pre @ seg). Name x \<in> set sampler_names \<and> (Value x = 0 \<or> Value x \<in> set buttons)"
    and last: "filter (\<lambda>x. Name x = n) pre = [] \<or> Value (last (filter (\<lambda>x. Name x = n) pre)) = 0"
    and nz: "\<forall>x\<in>set seg. Name x = n \<longrightarrow> Value x \<noteq> 0"
  shows "filter (\<lambda>e. fst e = c) (fst (OnRemoteReleased_samples Map.empty (pre @ seg))) =
         filter (\<lambda>e. fst e = c) (fst (OnRemoteReleased_samples Map.empty pre))
       \<and> fst (OnRemoteReleased_samples Map.empty (pre @ seg @ [\<lparr>Name = n, Value = 0\<rparr>])) =
         fst (OnRemoteReleased_samples Map.empty (pre @ seg)) @
         map (Pair c) (filter (\<lambda>b. b \<in> Value ` set (filter (\<lambda>x. Name x = n) seg)) buttons)"
proof -
  let ?N = "filter (\<lambda>x. Name x = n)"
  let ?e = "Map.empty :: PressedState"
  have agree0: "\<forall>b\<in>set buttons. ?e (buttonID c b) = ?e (buttonID c b)" by simp
  have okpre: "\<forall>x\<in>set pre. Name x \<in> set sampler_names \<and> (Value x = 0 \<or> Value x \<in> set buttons)"
    using ok by simp
  obtain p2 q2 where p2: "snd (OnRemoteReleased_samples ?e (pre @ seg)) = Inr p2"
      and q2: "snd (OnRemoteReleased_samples ?e (?N (pre @ seg))) = Inr q2"
      and ag: "\<forall>b\<in>set buttons. p2 (buttonID c b) = q2 (buttonID c b)"
      and ev: "filter (\<lambda>e. fst e = c) (fst (OnRemoteReleased_samples ?e (pre @ seg))) =
               fst (OnRemoteReleased_samples ?e (?N (pre @ seg)))"
    using released_channel_projection [OF c ok agree0] by blast
  have evpre: "filter (\<lambda>e. fst e = c) (fst (OnRemoteReleased_samples ?e pre)) =
               fst (OnRemoteReleased_samples ?e (?N pre))"
    using released_channel_projection [OF c okpre agree0] by blast
  obtain q2' where single: "OnRemoteReleased_samples ?e (?N pre @ ?N seg) =
        (fst (OnRemoteReleased_samples ?e (?N pre)), Inr q2')"
      and marks: "\<forall>b\<in>set buttons. (q2' (buttonID c b) = Some True) = (b \<in> Value ` set (?N seg))"
  proof -
    have names: "\<forall>x\<in>set (?N pre @ ?N seg). Name x = n" by auto
    have nz': "\<forall>x\<in>set (?N seg). Value x \<noteq> 0" using nz by simp
    from released_single_channel_state [OF c names last nz'] that show ?thesis by blast
  qed
  have q2_eq: "q2 = q2'" using q2 unfolding filter_append single by simp
  have a: "filter (\<lambda>e. fst e = c) (fst (OnRemoteReleased_samples ?e (pre @ seg))) =
           filter (\<lambda>e. fst e = c) (fst (OnRemoteReleased_samples ?e pre))"
  proof -
    have "fst (OnRemoteReleased_samples ?e (?N (pre @ seg))) =
          fst (OnRemoteReleased_samples ?e (?N pre))"
      unfolding filter_append single by simp
    then show ?thesis unfolding ev evpre .
  qed
  have filt: "filter (\<lambda>b. p2 (buttonID c b) = Some True) buttons =
              filter (\<lambda>b. b \<in> Value ` set (?N seg)) buttons"
    using ag marks q2_eq by (intro filter_cong) simp_all
  have "fst (OnRemoteReleased_samples ?e ((pre @ seg) @ [\<lparr>Name = n, Value = 0\<rparr>])) =
        fst (OnRemoteReleased_samples ?e (pre @ seg)) @
        map (Pair c) (filter (\<lambda>b. b \<in> Value ` set (?N seg)) buttons)"
    unfolding released_samples_idle_last [OF c p2]
    by (simp add: release_buttons_events distinct_buttons filt)
  with a show ?thesis by simp
qed

lemma released_silent_channel:
  fixes xs :: "RemoteSignal list"
  assumes c: "parseChannel n = Inr c"
    and ok: "\<forall>x\<in>set xs. Name x \<in> set sampler_names \<and> (Value x = 0 \<or> Value x \<in> set buttons)"
    and idle: "\<forall>x\<in>set xs. Name x = n \<longrightarrow> Value x = 0"
  shows "\<forall>e\<in>set (fst (OnRemoteReleased_samples Map.empty xs)). fst e \<noteq> c"
proof -
  let ?e = "Map.empty :: PressedState"
  have agree0: "\<forall>b\<in>set buttons. ?e (buttonID c b) = ?e (buttonID c b)" by simp
  have ev: "filter (\<lambda>e. fst e = c) (fst (OnRemoteReleased_samples ?e xs)) =
            fst (OnRemoteReleased_samples ?e (filter (\<lambda>x. Name x = n) xs))"
    using released_channel_projection [OF c ok agree0] by blast
  have "fst (OnRemoteReleased_samples ?e (filter (\<lambda>x. Name x = n) xs)) = []"
    by (rule released_all_idle [where n = n]) (use idle in simp_all)
  with ev have "filter (\<lambda>e. fst e = c) (fst (OnRemoteReleased_samples ?e xs)) = []" by simp
  then show ?thesis by (simp add: filter_empty_conv)
qed

section \<open>The claims\<close>

text \<open>
  C8. The key \<open>buttonID c b = c * 10 + b\<close> is injective on the four channels and the four
  buttons: two pairs of a channel among \<open>Channel1\<close> .. \<open>Channel4\<close> and a button among
  \<open>RedUp\<close> .. \<open>BlueDown\<close> get the same key if and only if they are the same pair, so every
  such pair has one entry of its own in the map \<open>pressed\<close>.
\<close>

theorem buttonID_injective:
  "\<forall>c\<in>set channels. \<forall>c'\<in>set channels. \<forall>b\<in>set buttons. \<forall>b'\<in>set buttons.
     (buttonID c b = buttonID c' b') = (c = c' \<and> b = b')"
  using buttonID_eq_iff by blast

theorem buttonID_injective_witness:
  "Channel2 \<in> set channels \<and> Channel3 \<in> set channels \<and> BlueDown \<in> set buttons \<and> RedUp \<in> set buttons
   \<and> buttonID Channel2 BlueDown = 14 \<and> buttonID Channel3 RedUp = 21
   \<and> buttonID Channel2 BlueDown \<noteq> buttonID Channel3 RedUp"
proof -
  have m: "Channel2 \<in> set channels" "Channel3 \<in> set channels" "BlueDown \<in> set buttons"
      "RedUp \<in> set buttons"
    by (simp_all add: channels_def buttons_def)
  have ne: "Channel2 \<noteq> Channel3" by (simp add: Channel2_def Channel3_def)
  have v: "buttonID Channel2 BlueDown = 14" "buttonID Channel3 RedUp = 21"
    by (simp_all add: buttonID_def Channel2_def Channel3_def BlueDown_def RedUp_def)
  from buttonID_injective m ne have "buttonID Channel2 BlueDown \<noteq> buttonID Channel3 RedUp"
    by blast
  with m v show ?thesis by simp
qed

text \<open>
  C1. Pressed mode, samples of one channel. While the engine processes a stretch of
  non-zero samples (what lies between two idle samples), it invokes no callback twice:
  the callbacks of the stretch are distinct, so the callback of a given button fires at
  most once, however often its sample repeats, and each is the channel with the value of
  a sample of the stretch. The samples \<open>0, 1, 1, 1, 0\<close> of channel 1 give exactly one
  callback, \<open>(Channel1, RedUp)\<close>.
\<close>

theorem pressed_at_most_once_between_idles:
  "(\<forall>n c pre seg.
      parseChannel n = Inr c \<and> (\<forall>x\<in>set (pre @ seg). Name x = n) \<and> (\<forall>x\<in>set seg. Value x \<noteq> 0) \<longrightarrow>
      (\<exists>evs. fst (OnRemotePressed_samples Map.empty (pre @ seg)) =
               fst (OnRemotePressed_samples Map.empty pre) @ evs
           \<and> distinct evs
           \<and> (\<forall>b. length (filter (\<lambda>e. e = (c, b)) evs) \<le> 1)
           \<and> set evs \<subseteq> (\<lambda>x. (c, Value x)) ` set seg))
   \<and> fst (OnRemotePressed_samples Map.empty
        [\<lparr>Name = ''value0'', Value = 0\<rparr>, \<lparr>Name = ''value0'', Value = 1\<rparr>,
         \<lparr>Name = ''value0'', Value = 1\<rparr>, \<lparr>Name = ''value0'', Value = 1\<rparr>,
         \<lparr>Name = ''value0'', Value = 0\<rparr>]) = [(Channel1, RedUp)]"
proof (intro conjI allI impI)
  fix n c and pre seg :: "RemoteSignal list"
  assume h: "parseChannel n = Inr c \<and> (\<forall>x\<in>set (pre @ seg). Name x = n) \<and> (\<forall>x\<in>set seg. Value x \<noteq> 0)"
  then have "\<forall>x\<in>set pre. Name x = n" by simp
  with h obtain p1 where p1: "snd (OnRemotePressed_samples Map.empty pre) = Inr p1"
    using pressed_samples_total by blast
  let ?evs = "fst (OnRemotePressed_samples p1 seg)"
  have free: "distinct ?evs \<and>
         (\<forall>e\<in>set ?evs.
            p1 (buttonID (fst e) (snd e)) \<noteq> Some True \<and>
            (\<exists>x\<in>set seg. parseChannel (Name x) = Inr (fst e) \<and> Value x = snd e))"
    by (rule pressed_idle_free) (use h in simp)
  have sub: "set ?evs \<subseteq> (\<lambda>x. (c, Value x)) ` set seg"
  proof
    fix e assume "e \<in> set ?evs"
    with free obtain x where x: "x \<in> set seg" "parseChannel (Name x) = Inr (fst e)" "Value x = snd e"
      by blast
    with h have "fst e = c" by auto
    with x show "e \<in> (\<lambda>x. (c, Value x)) ` set seg" by (cases e) auto
  qed
  have once: "\<forall>b. length (filter (\<lambda>e. e = (c, b)) ?evs) \<le> 1"
  proof
    fix b
    have "length (filter (\<lambda>e. e = (c, b)) ?evs) = card ({e. e = (c, b)} \<inter> set ?evs)"
      using free by (simp add: distinct_length_filter)
    also have "\<dots> \<le> card {(c, b)}"
      by (rule card_mono) auto
    finally show "length (filter (\<lambda>e. e = (c, b)) ?evs) \<le> 1" by simp
  qed
  have "fst (OnRemotePressed_samples Map.empty (pre @ seg)) =
        fst (OnRemotePressed_samples Map.empty pre) @ ?evs"
    unfolding pressed_samples_append [OF p1] by simp
  with free sub once
  show "\<exists>evs. fst (OnRemotePressed_samples Map.empty (pre @ seg)) =
               fst (OnRemotePressed_samples Map.empty pre) @ evs
           \<and> distinct evs
           \<and> (\<forall>b. length (filter (\<lambda>e. e = (c, b)) evs) \<le> 1)
           \<and> set evs \<subseteq> (\<lambda>x. (c, Value x)) ` set seg"
    by blast
next
  show "fst (OnRemotePressed_samples Map.empty
        [\<lparr>Name = ''value0'', Value = 0\<rparr>, \<lparr>Name = ''value0'', Value = 1\<rparr>,
         \<lparr>Name = ''value0'', Value = 1\<rparr>, \<lparr>Name = ''value0'', Value = 1\<rparr>,
         \<lparr>Name = ''value0'', Value = 0\<rparr>]) = [(Channel1, RedUp)]"
    by (rule pressed_scenario_1)
qed


theorem pressed_at_most_once_between_idles_witness:
  "parseChannel ''value0'' = Inr Channel1
   \<and> (\<exists>evs. fst (OnRemotePressed_samples Map.empty
                ([\<lparr>Name = ''value0'', Value = 0\<rparr>] @
                 [\<lparr>Name = ''value0'', Value = 1\<rparr>, \<lparr>Name = ''value0'', Value = 1\<rparr>,
                  \<lparr>Name = ''value0'', Value = 1\<rparr>])) =
              fst (OnRemotePressed_samples Map.empty [\<lparr>Name = ''value0'', Value = 0\<rparr>]) @ evs
            \<and> distinct evs
            \<and> length (filter (\<lambda>e. e = (Channel1, RedUp)) evs) \<le> 1)"
proof -
  let ?pre = "[\<lparr>Name = ''value0'', Value = 0\<rparr>]"
  let ?seg = "[\<lparr>Name = ''value0'', Value = 1\<rparr>, \<lparr>Name = ''value0'', Value = 1\<rparr>,
               \<lparr>Name = ''value0'', Value = 1\<rparr>]"
  have h: "parseChannel ''value0'' = Inr Channel1 \<and> (\<forall>x\<in>set (?pre @ ?seg). Name x = ''value0'')
           \<and> (\<forall>x\<in>set ?seg. Value x \<noteq> 0)"
    by (simp add: parseChannel_def)
  from pressed_at_most_once_between_idles [THEN conjunct1, rule_format, OF h]
  obtain evs where
    "fst (OnRemotePressed_samples Map.empty (?pre @ ?seg)) =
       fst (OnRemotePressed_samples Map.empty ?pre) @ evs"
    "distinct evs" "\<forall>b. length (filter (\<lambda>e. e = (Channel1, b)) evs) \<le> 1"
    by blast
  then show ?thesis using h by blast
qed

text \<open>
  C4. Pressed mode. An idle sample of a channel leaves each of the four buttons of that
  channel marked not pressed. Hence a press of a button that is not marked pressed,
  followed by an idle sample and the same press, invokes the callback twice; after an
  idle sample a press always invokes it, whatever the map held before. The samples
  \<open>1, 0, 1, 0\<close> of channel 1 give exactly \<open>(Channel1, RedUp)\<close>, \<open>(Channel1, RedUp)\<close>.
\<close>

theorem pressed_idle_resets_channel:
  "(\<forall>n c p. parseChannel n = Inr c \<longrightarrow>
      (\<exists>p'. OnRemotePressed_signal p \<lparr>Name = n, Value = 0\<rparr> = Inr (p', [])
          \<and> (\<forall>b\<in>set buttons. p' (buttonID c b) = Some False)))
   \<and> (\<forall>n c b p. parseChannel n = Inr c \<and> b \<in> set buttons \<and> p (buttonID c b) \<noteq> Some True \<longrightarrow>
        fst (OnRemotePressed_samples p
              [\<lparr>Name = n, Value = b\<rparr>, \<lparr>Name = n, Value = 0\<rparr>, \<lparr>Name = n, Value = b\<rparr>]) =
        [(c, b), (c, b)])
   \<and> (\<forall>n c b p. parseChannel n = Inr c \<and> b \<in> set buttons \<longrightarrow>
        fst (OnRemotePressed_samples p [\<lparr>Name = n, Value = 0\<rparr>, \<lparr>Name = n, Value = b\<rparr>]) =
        [(c, b)])
   \<and> fst (OnRemotePressed_samples Map.empty
        [\<lparr>Name = ''value0'', Value = 1\<rparr>, \<lparr>Name = ''value0'', Value = 0\<rparr>,
         \<lparr>Name = ''value0'', Value = 1\<rparr>, \<lparr>Name = ''value0'', Value = 0\<rparr>]) =
       [(Channel1, RedUp), (Channel1, RedUp)]"
proof (intro conjI allI impI)
  fix n c and p :: PressedState
  assume c: "parseChannel n = Inr c"
  have "OnRemotePressed_signal p \<lparr>Name = n, Value = 0\<rparr> = Inr (clear_buttons c buttons p, [])"
    by (rule OnRemotePressed_idle) (use c in simp_all)
  moreover have "\<forall>b\<in>set buttons. clear_buttons c buttons p (buttonID c b) = Some False"
    by (simp add: clear_buttons_apply)
  ultimately show "\<exists>p'. OnRemotePressed_signal p \<lparr>Name = n, Value = 0\<rparr> = Inr (p', [])
          \<and> (\<forall>b\<in>set buttons. p' (buttonID c b) = Some False)"
    by blast
next
  fix n c b and p :: PressedState
  assume "parseChannel n = Inr c \<and> b \<in> set buttons \<and> p (buttonID c b) \<noteq> Some True"
  then show "fst (OnRemotePressed_samples p
              [\<lparr>Name = n, Value = b\<rparr>, \<lparr>Name = n, Value = 0\<rparr>, \<lparr>Name = n, Value = b\<rparr>]) =
        [(c, b), (c, b)]"
    using pressed_press_idle_press by blast
next
  fix n c b and p :: PressedState
  assume "parseChannel n = Inr c \<and> b \<in> set buttons"
  then show "fst (OnRemotePressed_samples p [\<lparr>Name = n, Value = 0\<rparr>, \<lparr>Name = n, Value = b\<rparr>]) =
        [(c, b)]"
    using pressed_after_idle_fires by blast
next
  show "fst (OnRemotePressed_samples Map.empty
        [\<lparr>Name = ''value0'', Value = 1\<rparr>, \<lparr>Name = ''value0'', Value = 0\<rparr>,
         \<lparr>Name = ''value0'', Value = 1\<rparr>, \<lparr>Name = ''value0'', Value = 0\<rparr>]) =
       [(Channel1, RedUp), (Channel1, RedUp)]"
    by (rule pressed_scenario_3)
qed

theorem pressed_idle_resets_channel_witness:
  "parseChannel ''value2'' = Inr Channel3 \<and> BlueUp \<in> set buttons
   \<and> Map.empty (buttonID Channel3 BlueUp) \<noteq> Some True
   \<and> fst (OnRemotePressed_samples Map.empty
        [\<lparr>Name = ''value2'', Value = BlueUp\<rparr>, \<lparr>Name = ''value2'', Value = 0\<rparr>,
         \<lparr>Name = ''value2'', Value = BlueUp\<rparr>]) =
      [(Channel3, BlueUp), (Channel3, BlueUp)]"
proof -
  have h: "parseChannel ''value2'' = Inr Channel3 \<and> BlueUp \<in> set buttons
      \<and> (Map.empty :: PressedState) (buttonID Channel3 BlueUp) \<noteq> Some True"
    by (simp add: parseChannel_def buttons_def)
  from pressed_idle_resets_channel [THEN conjunct2, THEN conjunct1, rule_format, OF h] h
  show ?thesis by simp
qed

text \<open>
  C2, as stated, fails on the code: it promises one release callback for every pair of a
  non-zero sample and the idle sample that follows, on every sequence of one channel. The
  sampler passes on any value up to 65535, and the idle branch of the engine only looks
  at the keys of the codes 1 to 4: after the sample 7 of channel 1, the idle sample of
  channel 1 invokes nothing.
\<close>

theorem released_unlisted_code_never_fires:
  "fst (OnRemoteReleased_samples Map.empty
      [\<lparr>Name = ''value0'', Value = 7\<rparr>, \<lparr>Name = ''value0'', Value = 0\<rparr>]) = []"
  by (simp add: OnRemoteReleased_samples.simps(2) OnRemoteReleased_signal_def parseChannel_def
      buttonID_def buttons_def Channel1_def RedUp_def RedDown_def BlueUp_def BlueDown_def)

text \<open>
  C2, amended. Released mode, from the empty map, on any sequence of samples of the four
  channels, interleaved in any order, whose values are 0 or one of the button codes
  \<open>RedUp\<close> .. \<open>BlueDown\<close>. Fix a channel and split the sequence where that channel is
  idle: \<open>pre\<close> holds no sample of the channel or its last sample of the channel is idle,
  and \<open>seg\<close> holds no idle sample of the channel. Then
  \<^item> no callback of the channel is invoked while \<open>seg\<close> is processed, whatever the other
    channels do in it;
  \<^item> the idle sample of the channel that follows \<open>seg\<close> invokes the callback exactly once
    for each button whose code the channel reported in \<open>seg\<close>, and invokes nothing else;
  \<^item> a channel all of whose samples are idle never has a callback invoked.
  The samples \<open>3, 3, 0\<close> of channel 2 give exactly one callback, \<open>(Channel2, BlueUp)\<close>, and it
  is invoked at the sample \<open>0\<close>. Nothing is said about non-zero values that are not button
  codes.
\<close>

theorem released_once_per_press_and_idle:
  "(\<forall>n c pre seg.
      parseChannel n = Inr c
      \<and> (\<forall>x\<in>set (pre @ seg). Name x \<in> set sampler_names \<and> (Value x = 0 \<or> Value x \<in> set buttons))
      \<and> (filter (\<lambda>x. Name x = n) pre = [] \<or> Value (last (filter (\<lambda>x. Name x = n) pre)) = 0)
      \<and> (\<forall>x\<in>set seg. Name x = n \<longrightarrow> Value x \<noteq> 0) \<longrightarrow>
        filter (\<lambda>e. fst e = c) (fst (OnRemoteReleased_samples Map.empty (pre @ seg))) =
          filter (\<lambda>e. fst e = c) (fst (OnRemoteReleased_samples Map.empty pre))
      \<and> fst (OnRemoteReleased_samples Map.empty (pre @ seg @ [\<lparr>Name = n, Value = 0\<rparr>])) =
          fst (OnRemoteReleased_samples Map.empty (pre @ seg)) @
          map (Pair c) (filter (\<lambda>b. b \<in> Value ` set (filter (\<lambda>x. Name x = n) seg)) buttons))
   \<and> (\<forall>n c xs.
        parseChannel n = Inr c
        \<and> (\<forall>x\<in>set xs. Name x \<in> set sampler_names \<and> (Value x = 0 \<or> Value x \<in> set buttons))
        \<and> (\<forall>x\<in>set xs. Name x = n \<longrightarrow> Value x = 0) \<longrightarrow>
        (\<forall>e\<in>set (fst (OnRemoteReleased_samples Map.empty xs)). fst e \<noteq> c))
   \<and> fst (OnRemoteReleased_samples Map.empty
        [\<lparr>Name = ''value1'', Value = 3\<rparr>, \<lparr>Name = ''value1'', Value = 3\<rparr>]) = []
   \<and> fst (OnRemoteReleased_samples Map.empty
        [\<lparr>Name = ''value1'', Value = 3\<rparr>, \<lparr>Name = ''value1'', Value = 3\<rparr>,
         \<lparr>Name = ''value1'', Value = 0\<rparr>]) = [(Channel2, BlueUp)]"
proof -
  have 1: "\<forall>n c pre seg.
      parseChannel n = Inr c
      \<and> (\<forall>x\<in>set (pre @ seg). Name x \<in> set sampler_names \<and> (Value x = 0 \<or> Value x \<in> set buttons))
      \<and> (filter (\<lambda>x. Name x = n) pre = [] \<or> Value (last (filter (\<lambda>x. Name x = n) pre)) = 0)
      \<and> (\<forall>x\<in>set seg. Name x = n \<longrightarrow> Value x \<noteq> 0) \<longrightarrow>
        filter (\<lambda>e. fst e = c) (fst (OnRemoteReleased_samples Map.empty (pre @ seg))) =
          filter (\<lambda>e. fst e = c) (fst (OnRemoteReleased_samples Map.empty pre))
      \<and> fst (OnRemoteReleased_samples Map.empty (pre @ seg @ [\<lparr>Name = n, Value = 0\<rparr>])) =
          fst (OnRemoteReleased_samples Map.empty (pre @ seg)) @
          map (Pair c) (filter (\<lambda>b. b \<in> Value ` set (filter (\<lambda>x. Name x = n) seg)) buttons)"
    using released_interleaved by blast
  have 2: "\<forall>n c xs.
        parseChannel n = Inr c
        \<and> (\<forall>x\<in>set xs. Name x \<in> set sampler_names \<and> (Value x = 0 \<or> Value x \<in> set buttons))
        \<and> (\<forall>x\<in>set xs. Name x = n \<longrightarrow> Value x = 0) \<longrightarrow>
        (\<forall>e\<in>set (fst (OnRemoteReleased_samples Map.empty xs)). fst e \<noteq> c)"
    using released_silent_channel by blast
  note 3 = released_scenario_2 [THEN conjunct1]
  note 4 = released_scenario_2 [THEN conjunct2]
  show ?thesis by (rule conjI [OF 1 conjI [OF 2 conjI [OF 3 4]]])
qed

theorem released_once_per_press_and_idle_witness:
  "parseChannel ''value1'' = Inr Channel2
   \<and> fst (OnRemoteReleased_samples Map.empty
        ([\<lparr>Name = ''value1'', Value = 0\<rparr>] @
         [\<lparr>Name = ''value1'', Value = 3\<rparr>, \<lparr>Name = ''value0'', Value = 1\<rparr>,
          \<lparr>Name = ''value1'', Value = 3\<rparr>] @
         [\<lparr>Name = ''value1'', Value = 0\<rparr>])) =
       fst (OnRemoteReleased_samples Map.empty
        ([\<lparr>Name = ''value1'', Value = 0\<rparr>] @
         [\<lparr>Name = ''value1'', Value = 3\<rparr>, \<lparr>Name = ''value0'', Value = 1\<rparr>,
          \<lparr>Name = ''value1'', Value = 3\<rparr>])) @
       [(Channel2, BlueUp)]
   \<and> (Channel3, RedUp) \<notin> set (fst (OnRemoteReleased_samples Map.empty
        [\<lparr>Name = ''value0'', Value = 1\<rparr>, \<lparr>Name = ''value2'', Value = 0\<rparr>,
         \<lparr>Name = ''value0'', Value = 0\<rparr>]))"
proof -
  let ?pre = "[\<lparr>Name = ''value1'', Value = 0\<rparr>]"
  let ?seg = "[\<lparr>Name = ''value1'', Value = 3\<rparr>, \<lparr>Name = ''value0'', Value = 1\<rparr>,
               \<lparr>Name = ''value1'', Value = 3\<rparr>]"
  let ?xs = "[\<lparr>Name = ''value0'', Value = 1\<rparr>, \<lparr>Name = ''value2'', Value = 0\<rparr>,
              \<lparr>Name = ''value0'', Value = 0\<rparr>]"
  have h: "parseChannel ''value1'' = Inr Channel2
      \<and> (\<forall>x\<in>set (?pre @ ?seg). Name x \<in> set sampler_names \<and> (Value x = 0 \<or> Value x \<in> set buttons))
      \<and> (filter (\<lambda>x. Name x = ''value1'') ?pre = []
          \<or> Value (last (filter (\<lambda>x. Name x = ''value1'') ?pre)) = 0)
      \<and> (\<forall>x\<in>set ?seg. Name x = ''value1'' \<longrightarrow> Value x \<noteq> 0)"
    by (simp add: parseChannel_def sampler_names_def buttons_def RedUp_def RedDown_def
        BlueUp_def BlueDown_def)
  have f: "map (Pair Channel2)
        (filter (\<lambda>b. b \<in> Value ` set (filter (\<lambda>x. Name x = ''value1'') ?seg)) buttons) =
      [(Channel2, BlueUp)]"
    by (simp add: buttons_def RedUp_def RedDown_def BlueUp_def BlueDown_def)
  have h2: "parseChannel ''value2'' = Inr Channel3
      \<and> (\<forall>x\<in>set ?xs. Name x \<in> set sampler_names \<and> (Value x = 0 \<or> Value x \<in> set buttons))
      \<and> (\<forall>x\<in>set ?xs. Name x = ''value2'' \<longrightarrow> Value x = 0)"
    by (simp add: parseChannel_def sampler_names_def buttons_def RedUp_def RedDown_def
        BlueUp_def BlueDown_def)
  note a = released_once_per_press_and_idle [THEN conjunct1, rule_format, OF h, THEN conjunct2]
  note b = released_once_per_press_and_idle [THEN conjunct2, THEN conjunct1, rule_format, OF h2]
  have "(Channel3, RedUp) \<notin> set (fst (OnRemoteReleased_samples Map.empty ?xs))"
    using b by force
  with a h show ?thesis unfolding f by simp
qed

text \<open>
  C3, as stated, fails on the code in released mode: there the idle sample is the very
  sample whose processing invokes the callback (line 259). After the sample 3 of
  channel 2, which invokes nothing, the idle sample of channel 2 invokes
  \<open>(Channel2, BlueUp)\<close>.
\<close>

theorem released_idle_invokes_callback:
  "OnRemoteReleased_signal Map.empty \<lparr>Name = ''value1'', Value = 3\<rparr> =
     Inr (Map.empty(buttonID Channel2 BlueUp \<mapsto> True), [])
   \<and> map_sum id snd
        (OnRemoteReleased_signal (Map.empty(buttonID Channel2 BlueUp \<mapsto> True))
           \<lparr>Name = ''value1'', Value = 0\<rparr>) =
      Inr [(Channel2, BlueUp)]"
  by (simp add: OnRemoteReleased_signal_def parseChannel_def
      buttonID_def buttons_def Channel2_def RedUp_def RedDown_def BlueUp_def BlueDown_def)

text \<open>
  C3, amended. In pressed mode, processing an idle sample invokes no callback; it only
  sets the marks of the four buttons of the sample's channel to false. In released mode,
  processing an idle sample invokes the callback once for each of the four buttons of
  the sample's channel that is marked pressed, in the order of the codes, and sets the
  marks of those buttons to false; a non-zero sample invokes no callback there.
\<close>

theorem idle_sample_effect:
  "(\<forall>p signal c. parseChannel (Name signal) = Inr c \<and> Value signal = 0 \<longrightarrow>
      OnRemotePressed_signal p signal =
        Inr (\<lambda>k. if k \<in> buttonID c ` set buttons then Some False else p k, [])
      \<and> OnRemoteReleased_signal p signal =
        Inr (\<lambda>k. if k \<in> buttonID c ` {b \<in> set buttons. p (buttonID c b) = Some True}
                  then Some False else p k,
             map (Pair c) (filter (\<lambda>b. p (buttonID c b) = Some True) buttons)))
   \<and> (\<forall>p signal p' evs.
        Value signal = 0 \<and> OnRemotePressed_signal p signal = Inr (p', evs) \<longrightarrow> evs = [])
   \<and> (\<forall>p signal p' evs.
        Value signal \<noteq> 0 \<and> OnRemoteReleased_signal p signal = Inr (p', evs) \<longrightarrow> evs = [])"
proof (intro conjI allI impI)
  fix p :: PressedState and signal :: RemoteSignal and c
  assume h: "parseChannel (Name signal) = Inr c \<and> Value signal = 0"
  have "clear_buttons c buttons p =
        (\<lambda>k. if k \<in> buttonID c ` set buttons then Some False else p k)"
    by (rule ext) (simp add: clear_buttons_apply)
  then show "OnRemotePressed_signal p signal =
        Inr (\<lambda>k. if k \<in> buttonID c ` set buttons then Some False else p k, [])"
    using OnRemotePressed_idle [of signal c p] h by simp
  have "fst (release_buttons c buttons p) =
        (\<lambda>k. if k \<in> buttonID c ` {b \<in> set buttons. p (buttonID c b) = Some True}
              then Some False else p k)"
    by (rule ext) (rule release_buttons_state)
  moreover have "snd (release_buttons c buttons p) =
        map (Pair c) (filter (\<lambda>b. p (buttonID c b) = Some True) buttons)"
    by (rule release_buttons_events [OF distinct_buttons])
  ultimately have "release_buttons c buttons p =
        (\<lambda>k. if k \<in> buttonID c ` {b \<in> set buttons. p (buttonID c b) = Some True}
              then Some False else p k,
         map (Pair c) (filter (\<lambda>b. p (buttonID c b) = Some True) buttons))"
    by (metis prod.collapse)
  then show "OnRemoteReleased_signal p signal =
        Inr (\<lambda>k. if k \<in> buttonID c ` {b \<in> set buttons. p (buttonID c b) = Some True}
                  then Some False else p k,
             map (Pair c) (filter (\<lambda>b. p (buttonID c b) = Some True) buttons))"
    using OnRemoteReleased_idle [of signal c p] h by simp
next
  fix p p' :: PressedState and signal :: RemoteSignal and evs :: "event list"
  assume h: "Value signal = 0 \<and> OnRemotePressed_signal p signal = Inr (p', evs)"
  then obtain c where "parseChannel (Name signal) = Inr c"
    using OnRemotePressed_signal_Inr by blast
  then show "evs = []" using OnRemotePressed_idle [of signal c p] h by simp
next
  fix p p' :: PressedState and signal :: RemoteSignal and evs :: "event list"
  assume h: "Value signal \<noteq> 0 \<and> OnRemoteReleased_signal p signal = Inr (p', evs)"
  then obtain c where "parseChannel (Name signal) = Inr c"
    using OnRemoteReleased_signal_Inr by blast
  then show "evs = []" using OnRemoteReleased_press [of signal c p] h by simp
qed

theorem idle_sample_effect_witness:
  "parseChannel ''value1'' = Inr Channel2
   \<and> map_sum id snd (OnRemotePressed_signal (Map.empty(buttonID Channel2 BlueUp \<mapsto> True))
        \<lparr>Name = ''value1'', Value = 0\<rparr>) = Inr []
   \<and> map_sum id snd (OnRemoteReleased_signal (Map.empty(buttonID Channel2 BlueUp \<mapsto> True))
        \<lparr>Name = ''value1'', Value = 0\<rparr>) = Inr [(Channel2, BlueUp)]"
proof -
  let ?sig = "\<lparr>Name = ''value1'', Value = 0\<rparr>"
  let ?p = "Map.empty(buttonID Channel2 BlueUp \<mapsto> True) :: PressedState"
  have h: "parseChannel (Name ?sig) = Inr Channel2 \<and> Value ?sig = 0"
    by (simp add: parseChannel_def)
  have f: "map (Pair Channel2) (filter (\<lambda>b. ?p (buttonID Channel2 b) = Some True) buttons) =
           [(Channel2, BlueUp)]"
    by (simp add: buttons_def buttonID_def Channel2_def RedUp_def RedDown_def BlueUp_def BlueDown_def)
  from idle_sample_effect [THEN conjunct1, rule_format, OF h, of ?p]
  show ?thesis using h unfolding f by simp
qed

text \<open>
  C10. Pressed mode. Processing an idle sample of channel \<open>c\<close> invokes no callback, sets
  the mark of each of the four keys \<open>buttonID c RedUp\<close> .. \<open>buttonID c BlueDown\<close> to
  false and leaves every other key as it was; in particular every key of a button of
  another channel keeps its mark.
\<close>

theorem pressed_idle_frame:
  "\<forall>p signal c. parseChannel (Name signal) = Inr c \<and> Value signal = 0 \<longrightarrow>
     (\<exists>p'. OnRemotePressed_signal p signal = Inr (p', [])
        \<and> (\<forall>b\<in>set buttons. p' (buttonID c b) = Some False)
        \<and> (\<forall>k. k \<notin> buttonID c ` set buttons \<longrightarrow> p' k = p k)
        \<and> (\<forall>c'\<in>set channels. c' \<noteq> c \<longrightarrow> (\<forall>b\<in>set buttons. p' (buttonID c' b) = p (buttonID c' b))))"
proof (intro allI impI)
  fix p :: PressedState and signal :: RemoteSignal and c
  assume h: "parseChannel (Name signal) = Inr c \<and> Value signal = 0"
  let ?p' = "clear_buttons c buttons p"
  have c: "c \<in> set channels" using h parseChannel_channels by blast
  have 1: "OnRemotePressed_signal p signal = Inr (?p', [])"
    using OnRemotePressed_idle [of signal c p] h by simp
  have 2: "\<forall>b\<in>set buttons. ?p' (buttonID c b) = Some False"
    by (simp add: clear_buttons_apply)
  have 3: "\<forall>k. k \<notin> buttonID c ` set buttons \<longrightarrow> ?p' k = p k"
    by (simp add: clear_buttons_apply)
  have 4: "\<forall>c'\<in>set channels. c' \<noteq> c \<longrightarrow> (\<forall>b\<in>set buttons. ?p' (buttonID c' b) = p (buttonID c' b))"
  proof (intro ballI impI)
    fix c' b assume c': "c' \<in> set channels" "c' \<noteq> c" and b: "b \<in> set buttons"
    have "buttonID c' b \<notin> buttonID c ` set buttons"
    proof
      assume "buttonID c' b \<in> buttonID c ` set buttons"
      then obtain b' where "b' \<in> set buttons" "buttonID c' b = buttonID c b'" by blast
      then show False using buttonID_eq_iff [OF c'(1) c b] c'(2) by simp
    qed
    then show "?p' (buttonID c' b) = p (buttonID c' b)" using 3 by blast
  qed
  from 1 2 3 4 show "\<exists>p'. OnRemotePressed_signal p signal = Inr (p', [])
        \<and> (\<forall>b\<in>set buttons. p' (buttonID c b) = Some False)
        \<and> (\<forall>k. k \<notin> buttonID c ` set buttons \<longrightarrow> p' k = p k)
        \<and> (\<forall>c'\<in>set channels. c' \<noteq> c \<longrightarrow> (\<forall>b\<in>set buttons. p' (buttonID c' b) = p (buttonID c' b)))"
    by blast
qed

theorem pressed_idle_frame_witness:
  "parseChannel ''value0'' = Inr Channel1 \<and> Channel2 \<in> set channels \<and> RedUp \<in> set buttons
   \<and> (\<exists>p'. OnRemotePressed_signal
              (Map.empty(buttonID Channel1 RedUp \<mapsto> True, buttonID Channel2 RedUp \<mapsto> True))
              \<lparr>Name = ''value0'', Value = 0\<rparr> = Inr (p', [])
          \<and> p' (buttonID Channel1 RedUp) = Some False
          \<and> p' (buttonID Channel2 RedUp) = Some True)"
proof -
  let ?sig = "\<lparr>Name = ''value0'', Value = 0\<rparr>"
  let ?p = "Map.empty(buttonID Channel1 RedUp \<mapsto> True, buttonID Channel2 RedUp \<mapsto> True) :: PressedState"
  have h: "parseChannel (Name ?sig) = Inr Channel1 \<and> Value ?sig = 0"
    by (simp add: parseChannel_def)
  have m: "Channel2 \<in> set channels" "RedUp \<in> set buttons" "Channel2 \<noteq> Channel1"
    by (simp_all add: channels_def buttons_def Channel1_def Channel2_def)
  from pressed_idle_frame [rule_format, OF h, of ?p]
  obtain p' where p': "OnRemotePressed_signal ?p ?sig = Inr (p', [])"
      "\<forall>b\<in>set buttons. p' (buttonID Channel1 b) = Some False"
      "\<forall>c'\<in>set channels. c' \<noteq> Channel1 \<longrightarrow>
         (\<forall>b\<in>set buttons. p' (buttonID c' b) = ?p (buttonID c' b))"
    by blast
  have "p' (buttonID Channel1 RedUp) = Some False" using p'(2) m by blast
  moreover have "p' (buttonID Channel2 RedUp) = ?p (buttonID Channel2 RedUp)"
    using p'(3) m by blast
  ultimately show ?thesis using p'(1) h m by auto
qed

text \<open>
  C6, as stated, fails on the code for the last of its four cases: no code path checks a
  button code. The content \<open>7\<close> of a channel file parses, the sampler sends the sample,
  and the engine takes it as a button: pressed mode invokes the callback with the
  button 7, released mode marks the key; neither ends the process.
\<close>

theorem unrecognized_button_code_not_fatal:
  "pollRemote_tick ''value0'' (Some (''7'' @ [CHR 0x0A])) True = Inr \<lparr>Name = ''value0'', Value = 7\<rparr>
   \<and> OnRemotePressed_signal Map.empty \<lparr>Name = ''value0'', Value = 7\<rparr> =
       Inr (Map.empty(7 \<mapsto> True), [(Channel1, 7)])
   \<and> OnRemoteReleased_signal Map.empty \<lparr>Name = ''value0'', Value = 7\<rparr> =
       Inr (Map.empty(7 \<mapsto> True), [])
   \<and> 7 \<notin> set buttons"
  by (simp add: pollRemote_tick_def Trim_def space_newline_def ParseUint_10_16_def
      OnRemotePressed_signal_def OnRemoteReleased_signal_def parseChannel_def buttonID_def
      Channel1_def buttons_def RedUp_def RedDown_def BlueUp_def BlueDown_def)

text \<open>
  C6, amended. These are fatal and end the process:
  \<^item> a channel file that cannot be opened, read or rewound;
  \<^item> a channel file whose trimmed content is not a non-empty string of decimal digits
    denoting a number up to 65535 (a content that is, becomes the sample's value);
  \<^item> a sample whose name is none of \<open>value0\<close> .. \<open>value3\<close> reaching the engine, in
    either mode.
  A fatal step is the last step of a run. A non-zero button code is never fatal,
  recognized or not: pressed mode invokes the callback with it unless its key is marked
  pressed, and marks the key; released mode marks the key.
\<close>

theorem fatal_contract_violations:
  "(\<forall>name seek_ok. pollRemote_tick name None seek_ok = Inl FatalRead)
   \<and> (\<forall>name bytes. pollRemote_tick name (Some bytes) False = Inl FatalSeek)
   \<and> (\<forall>name bytes.
        \<not> (is_decimal (Trim bytes space_newline) \<and> decimal_value (Trim bytes space_newline) \<le> 65535) \<longrightarrow>
        (\<exists>e. pollRemote_tick name (Some bytes) True = Inl (FatalParse e)))
   \<and> (\<forall>name bytes.
        is_decimal (Trim bytes space_newline) \<and> decimal_value (Trim bytes space_newline) \<le> 65535 \<longrightarrow>
        pollRemote_tick name (Some bytes) True =
          Inr \<lparr>Name = name, Value = of_nat (decimal_value (Trim bytes space_newline))\<rparr>)
   \<and> (\<forall>p signal. Name signal \<notin> set sampler_names \<longrightarrow>
        OnRemotePressed_signal p signal = Inl FatalInvalidChannel
        \<and> OnRemoteReleased_signal p signal = Inl FatalInvalidChannel)
   \<and> (\<forall>m i st. i < 4 \<and> samplers st ! i = Opening \<longrightarrow>
        session_step m (SamplerOpen i False) st = Some (Inl FatalOpen))
   \<and> (\<forall>m i data seek_ok st e.
        i < 4 \<and> samplers st ! i = AtSelect \<and> stop st = []
        \<and> pollRemote_tick (sampler_names ! i) data seek_ok = Inl e \<longrightarrow>
        session_step m (SamplerPoll i data seek_ok) st = Some (Inl e))
   \<and> (\<forall>m st signal q.
        engine st = InLoop \<and> s st = signal # q \<and> Name signal \<notin> set sampler_names \<longrightarrow>
        session_step m EngineRecv st = Some (Inl FatalInvalidChannel))
   \<and> (\<forall>m a as st e. session_step m a st = Some (Inl e) \<longrightarrow>
        session_run m (a # as) st = (if as = [] then Some (Inl e) else None))
   \<and> (\<forall>p signal c. parseChannel (Name signal) = Inr c \<and> Value signal \<noteq> 0 \<longrightarrow>
        OnRemotePressed_signal p signal =
          (if p (buttonID c (Value signal)) = Some True then Inr (p, [])
           else Inr (p(buttonID c (Value signal) \<mapsto> True), [(c, Value signal)]))
        \<and> OnRemoteReleased_signal p signal = Inr (p(buttonID c (Value signal) \<mapsto> True), []))"
proof -
  have 1: "\<forall>name seek_ok. pollRemote_tick name None seek_ok = Inl FatalRead"
    by (simp add: pollRemote_tick_def)
  have 2: "\<forall>name bytes. pollRemote_tick name (Some bytes) False = Inl FatalSeek"
    by (simp add: pollRemote_tick_def)
  have 3: "\<forall>name bytes.
        \<not> (is_decimal (Trim bytes space_newline) \<and> decimal_value (Trim bytes space_newline) \<le> 65535) \<longrightarrow>
        (\<exists>e. pollRemote_tick name (Some bytes) True = Inl (FatalParse e))"
  proof (intro allI impI)
    fix name bytes
    assume "\<not> (is_decimal (Trim bytes space_newline) \<and> decimal_value (Trim bytes space_newline) \<le> 65535)"
    then obtain e where "ParseUint_10_16 (Trim bytes space_newline) = Inl e"
      using ParseUint_10_16_fails by blast
    then show "\<exists>e. pollRemote_tick name (Some bytes) True = Inl (FatalParse e)"
      unfolding pollRemote_tick_parse by simp
  qed
  have 4: "\<forall>name bytes.
        is_decimal (Trim bytes space_newline) \<and> decimal_value (Trim bytes space_newline) \<le> 65535 \<longrightarrow>
        pollRemote_tick name (Some bytes) True =
          Inr \<lparr>Name = name, Value = of_nat (decimal_value (Trim bytes space_newline))\<rparr>"
  proof (intro allI impI)
    fix name bytes
    assume "is_decimal (Trim bytes space_newline) \<and> decimal_value (Trim bytes space_newline) \<le> 65535"
    then have "ParseUint_10_16 (Trim bytes space_newline) =
        Inr (of_nat (decimal_value (Trim bytes space_newline)))"
      using ParseUint_10_16_Inr by blast
    then show "pollRemote_tick name (Some bytes) True =
          Inr \<lparr>Name = name, Value = of_nat (decimal_value (Trim bytes space_newline))\<rparr>"
      unfolding pollRemote_tick_parse by simp
  qed
  have 5: "\<forall>p signal. Name signal \<notin> set sampler_names \<longrightarrow>
        OnRemotePressed_signal p signal = Inl FatalInvalidChannel
        \<and> OnRemoteReleased_signal p signal = Inl FatalInvalidChannel"
    by (simp add: OnRemotePressed_signal_def OnRemoteReleased_signal_def parseChannel_Inl)
  have 6: "\<forall>m i st. i < 4 \<and> samplers st ! i = Opening \<longrightarrow>
        session_step m (SamplerOpen i False) st = Some (Inl FatalOpen)"
    by simp
  have 7: "\<forall>m i data seek_ok st e.
        i < 4 \<and> samplers st ! i = AtSelect \<and> stop st = []
        \<and> pollRemote_tick (sampler_names ! i) data seek_ok = Inl e \<longrightarrow>
        session_step m (SamplerPoll i data seek_ok) st = Some (Inl e)"
    by simp
  have 8: "\<forall>m st signal q.
        engine st = InLoop \<and> s st = signal # q \<and> Name signal \<notin> set sampler_names \<longrightarrow>
        session_step m EngineRecv st = Some (Inl FatalInvalidChannel)"
  proof (intro allI impI)
    fix m and st :: session and signal :: RemoteSignal and q :: "RemoteSignal list"
    assume h: "engine st = InLoop \<and> s st = signal # q \<and> Name signal \<notin> set sampler_names"
    then have "engine_signal m (pressed st) signal = Inl FatalInvalidChannel"
      using 5 by (cases m) (simp_all add: engine_signal_def)
    then show "session_step m EngineRecv st = Some (Inl FatalInvalidChannel)"
      using h by simp
  qed
  have 9: "\<forall>m a as st e. session_step m a st = Some (Inl e) \<longrightarrow>
        session_run m (a # as) st = (if as = [] then Some (Inl e) else None)"
    by simp
  have 10: "\<forall>p signal c. parseChannel (Name signal) = Inr c \<and> Value signal \<noteq> 0 \<longrightarrow>
        OnRemotePressed_signal p signal =
          (if p (buttonID c (Value signal)) = Some True then Inr (p, [])
           else Inr (p(buttonID c (Value signal) \<mapsto> True), [(c, Value signal)]))
        \<and> OnRemoteReleased_signal p signal = Inr (p(buttonID c (Value signal) \<mapsto> True), [])"
    using OnRemotePressed_press OnRemoteReleased_press by blast
  from 1 2 3 4 5 6 7 8 9 10 show ?thesis by (intro conjI)
qed


theorem fatal_contract_violations_witness:
  "\<not> (is_decimal (Trim (''12x'' @ [CHR 0x0A]) space_newline)
        \<and> decimal_value (Trim (''12x'' @ [CHR 0x0A]) space_newline) \<le> 65535)
   \<and> (\<exists>e. pollRemote_tick ''value0'' (Some (''12x'' @ [CHR 0x0A])) True = Inl (FatalParse e))
   \<and> ''value4'' \<notin> set sampler_names
   \<and> OnRemotePressed_signal Map.empty \<lparr>Name = ''value4'', Value = 1\<rparr> = Inl FatalInvalidChannel
   \<and> OnRemoteReleased_signal Map.empty \<lparr>Name = ''value4'', Value = 1\<rparr> = Inl FatalInvalidChannel
   \<and> samplers new_session ! 2 = Opening
   \<and> session_step PressedMode (SamplerOpen 2 False) new_session = Some (Inl FatalOpen)"
proof -
  have h3: "\<not> (is_decimal (Trim (''12x'' @ [CHR 0x0A]) space_newline)
        \<and> decimal_value (Trim (''12x'' @ [CHR 0x0A]) space_newline) \<le> 65535)"
    by (simp add: is_decimal_def Trim_def space_newline_def)
  have h5: "Name \<lparr>Name = ''value4'', Value = 1\<rparr> \<notin> set sampler_names"
    by (simp add: sampler_names_def)
  have h6: "(2::nat) < 4 \<and> samplers new_session ! 2 = Opening"
    by (simp add: new_session_def)
  note fcv = fatal_contract_violations
  note c3 = fcv [THEN conjunct2, THEN conjunct2, THEN conjunct1, rule_format, OF h3]
  note c5 = fcv [THEN conjunct2, THEN conjunct2, THEN conjunct2, THEN conjunct2, THEN conjunct1,
      rule_format, OF h5]
  note c6 = fcv [THEN conjunct2, THEN conjunct2, THEN conjunct2, THEN conjunct2, THEN conjunct2,
      THEN conjunct1, rule_format, OF h6]
  from c3 [of "''value0''"] c5 [of Map.empty] c6 [of PressedMode] h3 h5 h6
  show ?thesis by simp
qed

text \<open>
  C5, as stated, fails on the code: the engine's select has the two cases \<^verbatim>\<open><-stop\<close> and
  \<^verbatim>\<open>signal := <-s\<close> and nothing that ranks them, and Go's select takes any case that can
  proceed. In the run below the caller is sending on \<^verbatim>\<open>stop\<close> and a sample is queued; the
  engine takes the sample and invokes \<open>(Channel1, RedUp)\<close>.
\<close>

theorem select_takes_sample_while_stop_is_ready:
  "map_option (map_sum id stop)
      (session_run PressedMode
         [SamplerOpen 0 True, SamplerPoll 0 (Some (''1'' @ [CHR 0x0A])) True, SamplerSend 0,
          CallerSends True] new_session) = Some (Inr [True])
   \<and> map_option (map_sum id s)
      (session_run PressedMode
         [SamplerOpen 0 True, SamplerPoll 0 (Some (''1'' @ [CHR 0x0A])) True, SamplerSend 0,
          CallerSends True] new_session) = Some (Inr [\<lparr>Name = ''value0'', Value = 1\<rparr>])
   \<and> map_option (map_sum id fired)
      (session_run PressedMode
         [SamplerOpen 0 True, SamplerPoll 0 (Some (''1'' @ [CHR 0x0A])) True, SamplerSend 0,
          CallerSends True, EngineRecv] new_session) = Some (Inr [(Channel1, RedUp)])"
  by (simp add: eval_defs)

text \<open>
  Besides, one value sent on \<^verbatim>\<open>stop\<close> is received by one goroutine only, and the engine
  and the four samplers all receive from \<^verbatim>\<open>stop\<close>. In the run below the value is sent
  before any sample exists and sampler 0 receives it: the engine stays in its loop and
  invokes a callback for a sample of sampler 1. The source's comment promises that
  sending any value stops the listening; the amended statement below says nothing about
  the samplers or about which goroutine receives the value.
\<close>

lemma one_stop_value_stops_one_goroutine:
  "map_option (map_sum id fired)
      (session_run PressedMode
         [CallerSends True, SamplerOpen 0 True, SamplerStop 0,
          SamplerOpen 1 True, SamplerPoll 1 (Some (''1'' @ [CHR 0x0A])) True, SamplerSend 1,
          EngineRecv] new_session) = Some (Inr [(Channel2, RedUp)])
   \<and> map_option (map_sum id engine)
      (session_run PressedMode
         [CallerSends True, SamplerOpen 0 True, SamplerStop 0,
          SamplerOpen 1 True, SamplerPoll 1 (Some (''1'' @ [CHR 0x0A])) True, SamplerSend 1,
          EngineRecv] new_session) = Some (Inr InLoop)
   \<and> map_option (map_sum id stop)
      (session_run PressedMode
         [CallerSends True, SamplerOpen 0 True, SamplerStop 0,
          SamplerOpen 1 True, SamplerPoll 1 (Some (''1'' @ [CHR 0x0A])) True, SamplerSend 1,
          EngineRecv] new_session) = Some (Inr [])"
  by (simp add: eval_defs)

text \<open>
  C5, amended. Once the engine itself has received a value from \<^verbatim>\<open>stop\<close> it has returned:
  whatever happens afterwards, it stays returned and no callback is invoked. While the
  engine is in its loop and a value is being sent on \<^verbatim>\<open>stop\<close>, the engine can receive
  it, and doing so invokes no callback. When a value on \<^verbatim>\<open>stop\<close> and a queued sample are
  both ready, the engine can take either: cancellation has no priority.
\<close>

theorem engine_stop_ends_callbacks:
  "(\<forall>m acts st st'. engine st = Returned \<and> session_run m acts st = Some (Inr st') \<longrightarrow>
      engine st' = Returned \<and> fired st' = fired st)
   \<and> (\<forall>m st. engine st = InLoop \<and> stop st \<noteq> [] \<longrightarrow>
        (\<exists>st'. session_step m EngineStop st = Some (Inr st') \<and> engine st' = Returned
            \<and> fired st' = fired st \<and> stop st' = tl (stop st)))
   \<and> (\<forall>m st signal q. engine st = InLoop \<and> stop st \<noteq> [] \<and> s st = signal # q \<longrightarrow>
        session_step m EngineStop st \<noteq> None \<and> session_step m EngineRecv st \<noteq> None)"
proof -
  have 1: "\<forall>m acts st st'. engine st = Returned \<and> session_run m acts st = Some (Inr st') \<longrightarrow>
      engine st' = Returned \<and> fired st' = fired st"
    using session_run_returned by blast
  have 2: "\<forall>m st. engine st = InLoop \<and> stop st \<noteq> [] \<longrightarrow>
        (\<exists>st'. session_step m EngineStop st = Some (Inr st') \<and> engine st' = Returned
            \<and> fired st' = fired st \<and> stop st' = tl (stop st))"
    by simp
  have 3: "\<forall>m st signal q. engine st = InLoop \<and> stop st \<noteq> [] \<and> s st = signal # q \<longrightarrow>
        session_step m EngineStop st \<noteq> None \<and> session_step m EngineRecv st \<noteq> None"
  proof (intro allI impI)
    fix m and st :: session and signal and q :: "RemoteSignal list"
    assume h: "engine st = InLoop \<and> stop st \<noteq> [] \<and> s st = signal # q"
    have "session_step m EngineRecv st \<noteq> None"
      using h by (cases "engine_signal m (pressed st) signal") auto
    then show "session_step m EngineStop st \<noteq> None \<and> session_step m EngineRecv st \<noteq> None"
      using h by simp
  qed
  from 1 2 3 show ?thesis by (intro conjI)
qed

theorem engine_stop_ends_callbacks_witness:
  "map_option (map_sum id engine)
      (session_run PressedMode [CallerSends True, EngineStop] new_session) = Some (Inr Returned)
   \<and> map_option (map_sum id fired)
      (session_run PressedMode
         ([CallerSends True, EngineStop] @
          [SamplerOpen 0 True, SamplerPoll 0 (Some (''1'' @ [CHR 0x0A])) True, SamplerSend 0])
         new_session) = Some (Inr [])
   \<and> session_step PressedMode EngineStop
        (new_session\<lparr>stop := [True], s := [\<lparr>Name = ''value0'', Value = 1\<rparr>]\<rparr>) \<noteq> None
   \<and> session_step PressedMode EngineRecv
        (new_session\<lparr>stop := [True], s := [\<lparr>Name = ''value0'', Value = 1\<rparr>]\<rparr>) \<noteq> None"
proof -
  let ?a1 = "[CallerSends True, EngineStop]"
  let ?a2 = "[SamplerOpen 0 True, SamplerPoll 0 (Some (''1'' @ [CHR 0x0A])) True, SamplerSend 0]"
  let ?both = "new_session\<lparr>stop := [True], s := [\<lparr>Name = ''value0'', Value = 1\<rparr>]\<rparr>"
  obtain st1 where st1: "session_run PressedMode ?a1 new_session = Some (Inr st1)"
      and e1: "engine st1 = Returned" and f1: "fired st1 = []"
    by (simp add: eval_defs)
  obtain st2 where st2: "session_run PressedMode ?a2 st1 = Some (Inr st2)"
    using st1 by (auto simp: eval_defs)
  have whole: "session_run PressedMode (?a1 @ ?a2) new_session = Some (Inr st2)"
    using st1 st2 by (auto simp: eval_defs)
  have h1: "engine st1 = Returned \<and> session_run PressedMode ?a2 st1 = Some (Inr st2)"
    using e1 st2 by simp
  have h3: "engine ?both = InLoop \<and> stop ?both \<noteq> []
      \<and> s ?both = \<lparr>Name = ''value0'', Value = 1\<rparr> # []"
    by (simp add: new_session_def)
  from engine_stop_ends_callbacks [THEN conjunct1, rule_format, OF h1]
  have "fired st2 = []" using f1 by simp
  moreover note engine_stop_ends_callbacks [THEN conjunct2, THEN conjunct2, rule_format, OF h3]
  ultimately show ?thesis using st1 e1 whole by simp
qed

text \<open>
  C7. The channel \<open>s\<close> that the four samplers share with the one engine holds at most
  \<open>s_capacity = 50\<close> samples in every state a registration can reach, and nothing is
  lost in it: the samples sent are, in order, the samples the engine has received
  followed by the samples still queued. A sampler whose sample finds the queue full
  cannot complete its send, and keeps that sample through every step of the others
  until it does; when there is room the send appends exactly that sample at the end. A
  successful poll leaves its sampler with exactly one sample to send. The engine
  receives the oldest sample.
\<close>

theorem sample_queue_bounded_fifo:
  "50 \<le> s_capacity
   \<and> (\<forall>m acts st'. session_run m acts new_session = Some (Inr st') \<longrightarrow>
        length (s st') \<le> s_capacity \<and> enqueued st' = dequeued st' @ s st')
   \<and> (\<forall>m i st signal. i < 4 \<and> samplers st ! i = Sending signal \<and> length (s st) = s_capacity \<longrightarrow>
        session_step m (SamplerSend i) st = None)
   \<and> (\<forall>m i st signal a st'.
        samplers st ! i = Sending signal \<and> a \<noteq> SamplerSend i
        \<and> session_step m a st = Some (Inr st') \<longrightarrow>
        samplers st' ! i = Sending signal)
   \<and> (\<forall>m i st signal. i < 4 \<and> samplers st ! i = Sending signal \<and> length (s st) < s_capacity \<longrightarrow>
        session_step m (SamplerSend i) st =
          Some (Inr (st\<lparr>s := s st @ [signal], samplers := (samplers st)[i := AtSelect],
                        enqueued := enqueued st @ [signal]\<rparr>)))
   \<and> (\<forall>m i data seek_ok st signal.
        i < 4 \<and> samplers st ! i = AtSelect \<and> stop st = []
        \<and> pollRemote_tick (sampler_names ! i) data seek_ok = Inr signal \<longrightarrow>
        session_step m (SamplerPoll i data seek_ok) st =
          Some (Inr (st\<lparr>samplers := (samplers st)[i := Sending signal]\<rparr>)))
   \<and> (\<forall>m st signal q p' evs.
        engine st = InLoop \<and> s st = signal # q
        \<and> engine_signal m (pressed st) signal = Inr (p', evs) \<longrightarrow>
        session_step m EngineRecv st =
          Some (Inr (st\<lparr>s := q, pressed := p', fired := fired st @ evs,
                        dequeued := dequeued st @ [signal]\<rparr>)))"
proof -
  have 1: "50 \<le> s_capacity" by (simp add: s_capacity_def)
  have 2: "\<forall>m acts st'. session_run m acts new_session = Some (Inr st') \<longrightarrow>
        length (s st') \<le> s_capacity \<and> enqueued st' = dequeued st' @ s st'"
    using session_run_capacity session_run_fifo new_session_queue by blast
  have 3: "\<forall>m i st signal. i < 4 \<and> samplers st ! i = Sending signal \<and> length (s st) = s_capacity \<longrightarrow>
        session_step m (SamplerSend i) st = None"
    by simp
  have 4: "\<forall>m i st signal a st'.
        samplers st ! i = Sending signal \<and> a \<noteq> SamplerSend i
        \<and> session_step m a st = Some (Inr st') \<longrightarrow>
        samplers st' ! i = Sending signal"
    using session_step_pending by blast
  have 5: "\<forall>m i st signal. i < 4 \<and> samplers st ! i = Sending signal \<and> length (s st) < s_capacity \<longrightarrow>
        session_step m (SamplerSend i) st =
          Some (Inr (st\<lparr>s := s st @ [signal], samplers := (samplers st)[i := AtSelect],
                        enqueued := enqueued st @ [signal]\<rparr>))"
    by simp
  have 6: "\<forall>m i data seek_ok st signal.
        i < 4 \<and> samplers st ! i = AtSelect \<and> stop st = []
        \<and> pollRemote_tick (sampler_names ! i) data seek_ok = Inr signal \<longrightarrow>
        session_step m (SamplerPoll i data seek_ok) st =
          Some (Inr (st\<lparr>samplers := (samplers st)[i := Sending signal]\<rparr>))"
    by simp
  have 7: "\<forall>m st signal q p' evs.
        engine st = InLoop \<and> s st = signal # q
        \<and> engine_signal m (pressed st) signal = Inr (p', evs) \<longrightarrow>
        session_step m EngineRecv st =
          Some (Inr (st\<lparr>s := q, pressed := p', fired := fired st @ evs,
                        dequeued := dequeued st @ [signal]\<rparr>))"
    by simp
  from 1 2 3 4 5 6 7 show ?thesis by (intro conjI)
qed


theorem sample_queue_bounded_fifo_witness:
  "map_option (map_sum id enqueued)
      (session_run ReleasedMode
         [SamplerOpen 0 True, SamplerPoll 0 (Some (''3'' @ [CHR 0x0A])) True, SamplerSend 0,
          SamplerPoll 0 (Some (''0'' @ [CHR 0x0A])) True, SamplerSend 0, EngineRecv]
         new_session) =
      Some (Inr [\<lparr>Name = ''value0'', Value = 3\<rparr>, \<lparr>Name = ''value0'', Value = 0\<rparr>])
   \<and> map_option (map_sum id dequeued)
      (session_run ReleasedMode
         [SamplerOpen 0 True, SamplerPoll 0 (Some (''3'' @ [CHR 0x0A])) True, SamplerSend 0,
          SamplerPoll 0 (Some (''0'' @ [CHR 0x0A])) True, SamplerSend 0, EngineRecv]
         new_session) =
      Some (Inr [\<lparr>Name = ''value0'', Value = 3\<rparr>])
   \<and> map_option (map_sum id s)
      (session_run ReleasedMode
         [SamplerOpen 0 True, SamplerPoll 0 (Some (''3'' @ [CHR 0x0A])) True, SamplerSend 0,
          SamplerPoll 0 (Some (''0'' @ [CHR 0x0A])) True, SamplerSend 0, EngineRecv]
         new_session) =
      Some (Inr [\<lparr>Name = ''value0'', Value = 0\<rparr>])
   \<and> length (s (new_session\<lparr>s := replicate 50 \<lparr>Name = ''value0'', Value = 1\<rparr>,
                   samplers := [Sending \<lparr>Name = ''value0'', Value = 2\<rparr>, AtSelect, AtSelect, AtSelect]\<rparr>))
       = s_capacity
   \<and> session_step ReleasedMode (SamplerSend 0)
        (new_session\<lparr>s := replicate 50 \<lparr>Name = ''value0'', Value = 1\<rparr>,
           samplers := [Sending \<lparr>Name = ''value0'', Value = 2\<rparr>, AtSelect, AtSelect, AtSelect]\<rparr>)
       = None"
proof -
  let ?acts = "[SamplerOpen 0 True, SamplerPoll 0 (Some (''3'' @ [CHR 0x0A])) True, SamplerSend 0,
          SamplerPoll 0 (Some (''0'' @ [CHR 0x0A])) True, SamplerSend 0, EngineRecv]"
  let ?full = "new_session\<lparr>s := replicate 50 \<lparr>Name = ''value0'', Value = 1\<rparr>,
           samplers := [Sending \<lparr>Name = ''value0'', Value = 2\<rparr>, AtSelect, AtSelect, AtSelect]\<rparr>"
  obtain st' where run: "session_run ReleasedMode ?acts new_session = Some (Inr st')"
      and d: "dequeued st' = [\<lparr>Name = ''value0'', Value = 3\<rparr>]"
      and q: "s st' = [\<lparr>Name = ''value0'', Value = 0\<rparr>]"
    by (simp add: eval_defs)
  from sample_queue_bounded_fifo [THEN conjunct2, THEN conjunct1, rule_format, OF run]
  have e: "enqueued st' = [\<lparr>Name = ''value0'', Value = 3\<rparr>, \<lparr>Name = ''value0'', Value = 0\<rparr>]"
    using d q by simp
  have h3: "(0::nat) < 4 \<and> samplers ?full ! 0 = Sending \<lparr>Name = ''value0'', Value = 2\<rparr>
      \<and> length (s ?full) = s_capacity"
    by (simp add: new_session_def s_capacity_def)
  note blocked = sample_queue_bounded_fifo [THEN conjunct2, THEN conjunct2, THEN conjunct1,
      rule_format, OF h3, of ReleasedMode]
  show ?thesis using run d q e h3 blocked by simp
qed

text \<open>
  C9. Two registrations in one process, each with the channel \<open>s\<close> and the map
  \<open>pressed\<close> its call made, and each with the \<^verbatim>\<open>stop\<close> channel its caller gave it. As long
  as no fatal error has ended the process, a run of the process is exactly a run of the
  first registration on its own actions together with a run of the second on its own
  actions. So the state a registration reaches, its callbacks included, is the same
  whatever the mode, the state and the actions of the other registration are; and the
  callbacks of each registration are those its own engine computes from the samples it
  has itself received, starting from its own empty map.
\<close>

theorem registrations_independent:
  "(\<forall>m1 m2 acts st1 st2 st1' st2'.
      (process_run (m1, m2) acts (st1, st2) = Some (Inr (st1', st2'))) =
      (session_run m1 (first_actions acts) st1 = Some (Inr st1')
       \<and> session_run m2 (second_actions acts) st2 = Some (Inr st2')))
   \<and> (\<forall>m1 m2 m2' acts acts' st1 st2 st2x r r'.
        process_run (m1, m2) acts (st1, st2) = Some (Inr r)
        \<and> process_run (m1, m2') acts' (st1, st2x) = Some (Inr r')
        \<and> first_actions acts = first_actions acts' \<longrightarrow> fst r = fst r')
   \<and> (\<forall>m1 m1' m2 acts acts' st1 st1x st2 r r'.
        process_run (m1, m2) acts (st1, st2) = Some (Inr r)
        \<and> process_run (m1', m2) acts' (st1x, st2) = Some (Inr r')
        \<and> second_actions acts = second_actions acts' \<longrightarrow> snd r = snd r')
   \<and> (\<forall>m1 m2 acts r.
        process_run (m1, m2) acts (new_session, new_session) = Some (Inr r) \<longrightarrow>
        engine_samples m1 Map.empty (dequeued (fst r)) = (fired (fst r), Inr (pressed (fst r)))
        \<and> engine_samples m2 Map.empty (dequeued (snd r)) = (fired (snd r), Inr (pressed (snd r))))"
proof -
  have 1: "\<forall>m1 m2 acts st1 st2 st1' st2'.
      (process_run (m1, m2) acts (st1, st2) = Some (Inr (st1', st2'))) =
      (session_run m1 (first_actions acts) st1 = Some (Inr st1')
       \<and> session_run m2 (second_actions acts) st2 = Some (Inr st2'))"
    using process_run_sessions by blast
  have 2: "\<forall>m1 m2 m2' acts acts' st1 st2 st2x r r'.
        process_run (m1, m2) acts (st1, st2) = Some (Inr r)
        \<and> process_run (m1, m2') acts' (st1, st2x) = Some (Inr r')
        \<and> first_actions acts = first_actions acts' \<longrightarrow> fst r = fst r'"
  proof (intro allI impI)
    fix m1 m2 m2' acts acts' st1 st2 st2x and r r' :: "session \<times> session"
    assume h: "process_run (m1, m2) acts (st1, st2) = Some (Inr r)
        \<and> process_run (m1, m2') acts' (st1, st2x) = Some (Inr r')
        \<and> first_actions acts = first_actions acts'"
    have "session_run m1 (first_actions acts) st1 = Some (Inr (fst r))"
      using h process_run_sessions [of m1 m2 acts st1 st2 "fst r" "snd r"] by simp
    moreover have "session_run m1 (first_actions acts') st1 = Some (Inr (fst r'))"
      using h process_run_sessions [of m1 m2' acts' st1 st2x "fst r'" "snd r'"] by simp
    ultimately show "fst r = fst r'" using h by simp
  qed
  have 3: "\<forall>m1 m1' m2 acts acts' st1 st1x st2 r r'.
        process_run (m1, m2) acts (st1, st2) = Some (Inr r)
        \<and> process_run (m1', m2) acts' (st1x, st2) = Some (Inr r')
        \<and> second_actions acts = second_actions acts' \<longrightarrow> snd r = snd r'"
  proof (intro allI impI)
    fix m1 m1' m2 acts acts' st1 st1x st2 and r r' :: "session \<times> session"
    assume h: "process_run (m1, m2) acts (st1, st2) = Some (Inr r)
        \<and> process_run (m1', m2) acts' (st1x, st2) = Some (Inr r')
        \<and> second_actions acts = second_actions acts'"
    have "session_run m2 (second_actions acts) st2 = Some (Inr (snd r))"
      using h process_run_sessions [of m1 m2 acts st1 st2 "fst r" "snd r"] by simp
    moreover have "session_run m2 (second_actions acts') st2 = Some (Inr (snd r'))"
      using h process_run_sessions [of m1' m2 acts' st1x st2 "fst r'" "snd r'"] by simp
    ultimately show "snd r = snd r'" using h by simp
  qed
  have 4: "\<forall>m1 m2 acts r.
        process_run (m1, m2) acts (new_session, new_session) = Some (Inr r) \<longrightarrow>
        engine_samples m1 Map.empty (dequeued (fst r)) = (fired (fst r), Inr (pressed (fst r)))
        \<and> engine_samples m2 Map.empty (dequeued (snd r)) = (fired (snd r), Inr (pressed (snd r)))"
  proof (intro allI impI)
    fix m1 m2 acts and r :: "session \<times> session"
    assume h: "process_run (m1, m2) acts (new_session, new_session) = Some (Inr r)"
    have runs: "session_run m1 (first_actions acts) new_session = Some (Inr (fst r))"
        "session_run m2 (second_actions acts) new_session = Some (Inr (snd r))"
      using h process_run_sessions [of m1 m2 acts new_session new_session "fst r" "snd r"]
      by simp_all
    show "engine_samples m1 Map.empty (dequeued (fst r)) = (fired (fst r), Inr (pressed (fst r)))
        \<and> engine_samples m2 Map.empty (dequeued (snd r)) = (fired (snd r), Inr (pressed (snd r)))"
      using session_run_engine [OF runs(1) new_session_engine]
        session_run_engine [OF runs(2) new_session_engine] by simp
  qed
  from 1 2 3 4 show ?thesis by (intro conjI)
qed


theorem registrations_independent_witness:
  "map_option (map_sum id fired)
      (session_run PressedMode
         (first_actions
            [Inl (SamplerOpen 0 True), Inr (SamplerOpen 0 True),
             Inl (SamplerPoll 0 (Some (''1'' @ [CHR 0x0A])) True),
             Inr (SamplerPoll 0 (Some (''1'' @ [CHR 0x0A])) True),
             Inl (SamplerSend 0), Inr (SamplerSend 0), Inr EngineRecv, Inl EngineRecv])
         new_session) = Some (Inr [(Channel1, RedUp)])
   \<and> map_option (map_sum id fired)
      (session_run ReleasedMode
         (second_actions
            [Inl (SamplerOpen 0 True), Inr (SamplerOpen 0 True),
             Inl (SamplerPoll 0 (Some (''1'' @ [CHR 0x0A])) True),
             Inr (SamplerPoll 0 (Some (''1'' @ [CHR 0x0A])) True),
             Inl (SamplerSend 0), Inr (SamplerSend 0), Inr EngineRecv, Inl EngineRecv])
         new_session) = Some (Inr [])
   \<and> fst (engine_samples PressedMode Map.empty [\<lparr>Name = ''value0'', Value = 1\<rparr>]) =
       [(Channel1, RedUp)]"
proof -
  let ?acts = "[Inl (SamplerOpen 0 True), Inr (SamplerOpen 0 True),
             Inl (SamplerPoll 0 (Some (''1'' @ [CHR 0x0A])) True),
             Inr (SamplerPoll 0 (Some (''1'' @ [CHR 0x0A])) True),
             Inl (SamplerSend 0), Inr (SamplerSend 0), Inr EngineRecv, Inl EngineRecv]"
  obtain r where run: "process_run (PressedMode, ReleasedMode) ?acts (new_session, new_session) =
        Some (Inr r)"
      and f1: "fired (fst r) = [(Channel1, RedUp)]" and f2: "fired (snd r) = []"
      and d1: "dequeued (fst r) = [\<lparr>Name = ''value0'', Value = 1\<rparr>]"
    by (simp add: eval_defs)
  have run': "process_run (PressedMode, ReleasedMode) ?acts (new_session, new_session) =
        Some (Inr (fst r, snd r))"
    using run by simp
  note split = registrations_independent [THEN conjunct1, rule_format,
      of PressedMode ReleasedMode ?acts new_session new_session "fst r" "snd r"]
  have solo: "session_run PressedMode (first_actions ?acts) new_session = Some (Inr (fst r))"
      "session_run ReleasedMode (second_actions ?acts) new_session = Some (Inr (snd r))"
    using split run' by blast+
  note own = registrations_independent [THEN conjunct2, THEN conjunct2, THEN conjunct2,
      rule_format, OF run]
  have "fst (engine_samples PressedMode Map.empty [\<lparr>Name = ''value0'', Value = 1\<rparr>]) =
       [(Channel1, RedUp)]"
    using own d1 f1 by simp
  then show ?thesis using solo f1 f2 by simp
qed

end
